theory Spec2Isabelle
  imports Main
begin

section \<open>Strings and the identifier sanitizer\<close>

text \<open>
  Python strings are modelled as \<open>string\<close>; a character is a code point below 256
  (Latin-1). The helpers below are the Python built-ins the source calls, restricted to
  that range.
\<close>

datatype sql_error =
    SyntaxError | ReservedName | TableExists | DuplicateColumn
  | NoSuchName | ReadOnlyTable | DatabaseFull

datatype exn =
    IndexError | OperationalError sql_error | IntegrityError | OverflowError
  | ValueError | CsvError | OSError | UnicodeEncodeError

definition code :: "char \<Rightarrow> nat" where
  "code c = of_char c"

definition is_upper_ascii :: "char \<Rightarrow> bool" where
  "is_upper_ascii c = (65 \<le> code c \<and> code c \<le> 90)"

definition is_lower_ascii :: "char \<Rightarrow> bool" where
  "is_lower_ascii c = (97 \<le> code c \<and> code c \<le> 122)"

definition is_digit_ascii :: "char \<Rightarrow> bool" where
  "is_digit_ascii c = (48 \<le> code c \<and> code c \<le> 57)"

definition lower_char :: "char \<Rightarrow> char" where
  \<comment> \<open>\<open>str.lower\<close> on one code point: A-Z, and the Latin-1 capitals C0-DE except D7.\<close>
  "lower_char c =
     (if is_upper_ascii c \<or> (192 \<le> code c \<and> code c \<le> 222 \<and> code c \<noteq> 215)
      then char_of (code c + 32) else c)"

definition lower :: "string \<Rightarrow> string" where
  "lower s = map lower_char s"

definition isspace :: "char \<Rightarrow> bool" where
  \<comment> \<open>\<open>str.isspace\<close>: TAB LF VT FF CR, FS GS RS US, space, NEL, NBSP.\<close>
  "isspace c = ((9 \<le> code c \<and> code c \<le> 13) \<or> (28 \<le> code c \<and> code c \<le> 32)
                \<or> code c = 133 \<or> code c = 160)"

definition strip :: "string \<Rightarrow> string" where
  "strip s = rev (dropWhile isspace (rev (dropWhile isspace s)))"

definition isdigit :: "char \<Rightarrow> bool" where
  \<comment> \<open>\<open>str.isdigit\<close>: 0-9 and the superscripts B2, B3, B9.\<close>
  "isdigit c = (is_digit_ascii c \<or> code c = 178 \<or> code c = 179 \<or> code c = 185)"

definition re_keep :: "char \<Rightarrow> bool" where
  \<comment> \<open>the characters that the pattern \<open>[^a-zA-Z0-9_]\<close> does not match\<close>
  "re_keep c = (is_lower_ascii c \<or> is_upper_ascii c \<or> is_digit_ascii c \<or> c = CHR ''_'')"

definition re_sub :: "string \<Rightarrow> string" where
  "re_sub s = map (\<lambda>c. if re_keep c then c else CHR ''_'') s"

definition sanitize_name :: "string \<Rightarrow> exn + string" where
  \<comment> \<open>\<open>_sanitize_name\<close>; \<open>sanitized[0]\<close> raises IndexError on the empty string.\<close>
  "sanitize_name name =
     (let sanitized = re_sub (strip (lower name)) in
      case sanitized of
        [] \<Rightarrow> Inl IndexError
      | c # _ \<Rightarrow> Inr (if isdigit c then CHR ''_'' # sanitized else sanitized))"

definition ident_char :: "char \<Rightarrow> bool" where
  \<comment> \<open>membership in \<open>[a-z0-9_]\<close>\<close>
  "ident_char c = (is_lower_ascii c \<or> is_digit_ascii c \<or> c = CHR ''_'')"

definition starts_with_digit :: "string \<Rightarrow> bool" where
  "starts_with_digit s = (case s of [] \<Rightarrow> False | c # _ \<Rightarrow> is_digit_ascii c)"

definition spec_sanitize :: "string \<Rightarrow> string" where
  \<comment> \<open>The rule in the specification's words: lowercase, replace every character outside
      \<open>[a-z0-9_]\<close> by an underscore, prefix an underscore when the result starts with a digit.\<close>
  "spec_sanitize x =
     (let r = map (\<lambda>c. if ident_char c then c else CHR ''_'') (lower x)
      in if starts_with_digit r then CHR ''_'' # r else r)"


section \<open>Formatting helpers\<close>

definition apos :: string where
  "apos = [CHR 0x27]"

definition quoted :: "string \<Rightarrow> string" where
  \<comment> \<open>the pattern \<open>'{x}'\<close> of the f-strings\<close>
  "quoted x = apos @ x @ apos"

function str_nat :: "nat \<Rightarrow> string" where
  "str_nat n = (if n < 10 then [char_of (48 + n)]
                else str_nat (n div 10) @ [char_of (48 + n mod 10)])"
  by pat_completeness auto
termination
  by (relation "measure id") auto

declare str_nat.simps [simp del]

definition str_int :: "int \<Rightarrow> string" where
  \<comment> \<open>\<open>str\<close> on a Python int\<close>
  "str_int i = (if i < 0 then CHR ''-'' # str_nat (nat (- i)) else str_nat (nat i))"

fun join :: "string \<Rightarrow> string list \<Rightarrow> string" where
  "join sep [] = []"
| "join sep [x] = x"
| "join sep (x # y # ys) = x @ sep @ join sep (y # ys)"

fun split :: "char \<Rightarrow> string \<Rightarrow> string list" where
  \<comment> \<open>\<open>str.split\<close> with a one-character separator\<close>
  "split d [] = [[]]"
| "split d (c # cs) =
     (if c = d then [] # split d cs
      else (case split d cs of [] \<Rightarrow> [[c]] | r # rs \<Rightarrow> (c # r) # rs))"

fun dict_set :: "'k \<Rightarrow> 'v \<Rightarrow> ('k \<times> 'v) list \<Rightarrow> ('k \<times> 'v) list" where
  \<comment> \<open>\<open>d[k] = v\<close> on an insertion-ordered dict\<close>
  "dict_set k v [] = [(k, v)]"
| "dict_set k v ((k', v') # rest) =
     (if k = k' then (k, v) # rest else (k', v') # dict_set k v rest)"

section \<open>The SQLite store\<close>

text \<open>
  The connection's database is modelled by its content: the rows of the metadata table
  \<open>_spreadsheet_meta\<close>, the user tables, and SQLite's \<open>sqlite_sequence\<close> table, which
  holds the AUTOINCREMENT high-water mark of each table. A user table has the column
  \<open>id INTEGER PRIMARY KEY AUTOINCREMENT\<close> and TEXT columns; a cell is \<open>None\<close> for SQL NULL.
  Each SQL statement of the source is a function on this state that returns the error
  SQLite raises (\<open>sqlite3.OperationalError\<close>, \<open>sqlite3.IntegrityError\<close>) or the new state.
  The kind \<open>NoSuchName\<close> stands for both "no such table" and "no such column". SQLite
  compares table names without regard to ASCII case; the statements that can receive a
  name the sanitizer has not produced (DELETE and SELECT, through an explicit target) resolve
  it that way, the others receive registered names, which are lower-case, and look them up
  as written. A target that contains a double quote changes the text of the statement
  itself and is outside the model. An integer parameter outside the signed 64-bit range
  makes \<open>sqlite3\<close> raise OverflowError when it binds it, after the statement has compiled.
  An exception is the whole result of a call: the state the connection is left in is not
  modelled.
\<close>

definition lower_ascii :: "char \<Rightarrow> char" where
  "lower_ascii c = (if is_upper_ascii c then char_of (code c + 32) else c)"

definition same_name :: "string \<Rightarrow> string \<Rightarrow> bool" where
  \<comment> \<open>SQLite's comparison of identifiers\<close>
  "same_name a b = (map lower_ascii a = map lower_ascii b)"

definition resolve_table :: "(string \<times> 'a) list \<Rightarrow> string \<Rightarrow> string" where
  \<comment> \<open>the stored name of the table that \<open>t\<close> denotes (a database never holds two names that
      differ in case only), or \<open>t\<close> itself when there is none\<close>
  "resolve_table ts t =
     (if map_of ts t \<noteq> None then t
      else (case find (\<lambda>p. same_name (fst p) t) ts of None \<Rightarrow> t | Some p \<Rightarrow> fst p))"

definition schema_table :: "string \<Rightarrow> bool" where
  \<comment> \<open>the schema tables, which exist in every database and cannot be written\<close>
  "schema_table t =
     (same_name t ''sqlite_master'' \<or> same_name t ''sqlite_schema''
      \<or> same_name t ''sqlite_temp_master'' \<or> same_name t ''sqlite_temp_schema'')"

definition int64 :: "int \<Rightarrow> bool" where
  "int64 i = (- 9223372036854775808 \<le> i \<and> i \<le> 9223372036854775807)"


record table =
  tcols :: "string list"
  trows :: "(int \<times> string option list) list"

record manager =
  meta :: "(string \<times> string) list"
  tables :: "(string \<times> table) list"
  sqlite_sequence :: "(string \<times> int) list"
  current_spreadsheet :: "string option"

datatype pyval = PNone | PInt int | PStr string

type_synonym pyrow = "(string \<times> pyval) list"

datatype outcome =
    Failure string
  | Created string "string list" string
  | RowAdded int string
  | ColumnAdded string string
  | Done string
  | Switched string string
  | Exported string string
  | DataFailure string
  | Data string "string list" "pyrow list"

definition init :: manager where
  \<comment> \<open>\<open>__init__\<close> on a fresh database file\<close>
  "init = \<lparr>meta = [], tables = [], sqlite_sequence = [], current_spreadsheet = None\<rparr>"

definition max_rowid :: "(int \<times> string option list) list \<Rightarrow> int" where
  "max_rowid rows = fold (\<lambda>r acc. max (fst r) acc) rows 0"

definition seq_of :: "manager \<Rightarrow> string \<Rightarrow> int" where
  "seq_of m t = (case map_of (sqlite_sequence m) t of None \<Rightarrow> 0 | Some n \<Rightarrow> n)"

definition set_table :: "string \<Rightarrow> table \<Rightarrow> (string \<times> table) list \<Rightarrow> (string \<times> table) list" where
  "set_table t tb ts = map (\<lambda>(n, x). if n = t then (n, tb) else (n, x)) ts"

definition sql_create_table :: "manager \<Rightarrow> string \<Rightarrow> string list \<Rightarrow> exn + manager" where
  \<comment> \<open>\<open>CREATE TABLE "t" (id INTEGER PRIMARY KEY AUTOINCREMENT, "c1" TEXT, ...)\<close>;
      with no column the text ends in \<open>, )\<close>, a syntax error\<close>
  "sql_create_table m t cols =
     (if take 7 t = ''sqlite_'' then Inl (OperationalError ReservedName)
      else if t = ''_spreadsheet_meta'' \<or> map_of (tables m) t \<noteq> None
        then Inl (OperationalError TableExists)
      else if cols = [] then Inl (OperationalError SyntaxError)
      else if \<not> distinct (''id'' # cols) then Inl (OperationalError DuplicateColumn)
      else Inr (m\<lparr>tables := tables m @ [(t, \<lparr>tcols = cols, trows = []\<rparr>)]\<rparr>))"

definition sql_insert ::
  "manager \<Rightarrow> string \<Rightarrow> (string \<times> string) list \<Rightarrow> exn + manager \<times> int" where
  \<comment> \<open>\<open>INSERT INTO "t" (cols) VALUES (?, ...)\<close>; AUTOINCREMENT takes one more than the
      largest rowid the table ever held, and fails at the largest 64-bit integer\<close>
  "sql_insert m t vals =
     (case map_of (tables m) t of
        None \<Rightarrow> Inl (OperationalError NoSuchName)
      | Some tb \<Rightarrow>
          if \<not> list_all (\<lambda>c. c \<in> set (tcols tb)) (map fst vals)
          then Inl (OperationalError NoSuchName)
          else
            let hi = max (seq_of m t) (max_rowid (trows tb)) in
            if hi \<ge> 9223372036854775807 then Inl (OperationalError DatabaseFull)
            else
              let rid = hi + 1;
                  row = (rid, map (\<lambda>c. map_of vals c) (tcols tb))
              in Inr (m\<lparr>tables := set_table t (tb\<lparr>trows := trows tb @ [row]\<rparr>) (tables m),
                        sqlite_sequence := dict_set t rid (sqlite_sequence m)\<rparr>, rid))"

definition sql_alter_add_column_default_param ::
  "manager \<Rightarrow> string \<Rightarrow> string \<Rightarrow> string \<Rightarrow> exn + manager" where
  \<comment> \<open>\<open>ALTER TABLE "t" ADD COLUMN "c" TEXT DEFAULT ?\<close>: SQLite's grammar takes a literal or
      a parenthesised expression after DEFAULT, never a bound parameter, so the statement
      fails to compile with \<open>near "?": syntax error\<close> whatever the arguments\<close>
  "sql_alter_add_column_default_param m t c dflt = Inl (OperationalError SyntaxError)"

definition set_cell :: "string list \<Rightarrow> string \<Rightarrow> string \<Rightarrow> string option list \<Rightarrow> string option list" where
  "set_cell cols c v cells = map (\<lambda>(n, x). if n = c then Some v else x) (zip cols cells)"

definition sql_update ::
  "manager \<Rightarrow> string \<Rightarrow> string \<Rightarrow> string \<Rightarrow> int \<Rightarrow> exn + manager \<times> nat" where
  \<comment> \<open>\<open>UPDATE "t" SET "c" = ? WHERE id = ?\<close>, with the cursor's rowcount\<close>
  "sql_update m t c v rid =
     (case map_of (tables m) t of
        None \<Rightarrow> Inl (OperationalError NoSuchName)
      | Some tb \<Rightarrow>
          if c \<notin> set (tcols tb) then Inl (OperationalError NoSuchName)
          else if \<not> int64 rid then Inl OverflowError
          else
            let rows = map (\<lambda>(i, cells). if i = rid then (i, set_cell (tcols tb) c v cells)
                                          else (i, cells)) (trows tb)
            in Inr (m\<lparr>tables := set_table t (tb\<lparr>trows := rows\<rparr>) (tables m)\<rparr>,
                    length (filter (\<lambda>r. fst r = rid) (trows tb))))"

definition sql_delete ::
  "manager \<Rightarrow> string \<Rightarrow> int \<Rightarrow> exn + manager \<times> nat" where
  \<comment> \<open>\<open>DELETE FROM "t" WHERE id = ?\<close>, with the cursor's rowcount\<close>
  "sql_delete m t rid =
     (if schema_table t then Inl (OperationalError ReadOnlyTable)
      else
        let n = resolve_table (tables m) t in
        case map_of (tables m) n of
          None \<Rightarrow> Inl (OperationalError NoSuchName)
        | Some tb \<Rightarrow>
            if \<not> int64 rid then Inl OverflowError
            else
              Inr (m\<lparr>tables := set_table n (tb\<lparr>trows := filter (\<lambda>r. fst r \<noteq> rid) (trows tb)\<rparr>)
                                  (tables m)\<rparr>,
                   length (filter (\<lambda>r. fst r = rid) (trows tb))))"

definition project :: "string list \<Rightarrow> string list \<Rightarrow> string option list \<Rightarrow> string option list" where
  \<comment> \<open>the cells of the columns \<open>cols\<close>, in that order, of a row over \<open>src\<close>\<close>
  "project src cols cells =
     map (\<lambda>c. case map_of (zip src cells) c of None \<Rightarrow> None | Some x \<Rightarrow> x) cols"

definition sql_insert_select ::
  "manager \<Rightarrow> string \<Rightarrow> string list \<Rightarrow> string \<Rightarrow> exn + manager" where
  \<comment> \<open>\<open>INSERT INTO "dst" (id, cols) SELECT id, cols FROM "src"\<close>; an explicit rowid raises
      the destination's high-water mark to the largest rowid copied\<close>
  "sql_insert_select m dst cols src =
     (case map_of (tables m) dst of
        None \<Rightarrow> Inl (OperationalError NoSuchName)
      | Some d \<Rightarrow>
         (case map_of (tables m) src of
            None \<Rightarrow> Inl (OperationalError NoSuchName)
          | Some s \<Rightarrow>
              if cols = [] then Inl (OperationalError SyntaxError)
              else if \<not> list_all (\<lambda>c. c \<in> set (tcols d) \<and> c \<in> set (tcols s)) cols
                then Inl (OperationalError NoSuchName)
              else
                let copied = map (\<lambda>(i, cells).
                                    (i, project cols (tcols d) (project (tcols s) cols cells)))
                                 (trows s)
                in if \<not> distinct (map fst (trows d @ copied)) then Inl IntegrityError
                   else Inr (m\<lparr>tables := set_table dst (d\<lparr>trows := trows d @ copied\<rparr>) (tables m),
                               sqlite_sequence :=
                                 dict_set dst (max (seq_of m dst) (max_rowid copied))
                                   (sqlite_sequence m)\<rparr>)))"

definition sql_drop_table :: "manager \<Rightarrow> string \<Rightarrow> exn + manager" where
  \<comment> \<open>\<open>DROP TABLE "t"\<close>; the table's \<open>sqlite_sequence\<close> row goes with it\<close>
  "sql_drop_table m t =
     (if map_of (tables m) t = None then Inl (OperationalError NoSuchName)
      else Inr (m\<lparr>tables := filter (\<lambda>p. fst p \<noteq> t) (tables m),
                  sqlite_sequence := filter (\<lambda>p. fst p \<noteq> t) (sqlite_sequence m)\<rparr>))"

definition sql_drop_table_if_exists :: "manager \<Rightarrow> string \<Rightarrow> manager" where
  "sql_drop_table_if_exists m t =
     m\<lparr>tables := filter (\<lambda>p. fst p \<noteq> t) (tables m),
       sqlite_sequence := filter (\<lambda>p. fst p \<noteq> t) (sqlite_sequence m)\<rparr>"

definition sql_rename_table :: "manager \<Rightarrow> string \<Rightarrow> string \<Rightarrow> exn + manager" where
  \<comment> \<open>\<open>ALTER TABLE "old" RENAME TO "new"\<close>\<close>
  "sql_rename_table m old new =
     (if map_of (tables m) old = None then Inl (OperationalError NoSuchName)
      else if take 7 new = ''sqlite_'' then Inl (OperationalError ReservedName)
      else if new = ''_spreadsheet_meta'' \<or> map_of (tables m) new \<noteq> None
        then Inl (OperationalError TableExists)
      else Inr (m\<lparr>tables := map (\<lambda>(n, x). if n = old then (new, x) else (n, x)) (tables m),
                  sqlite_sequence :=
                    map (\<lambda>(n, x). if n = old then (new, x) else (n, x)) (sqlite_sequence m)\<rparr>))"

definition row_dict :: "string list \<Rightarrow> int \<times> string option list \<Rightarrow> pyrow" where
  \<comment> \<open>\<open>dict(row)\<close> of a \<open>sqlite3.Row\<close>\<close>
  "row_dict cols r =
     (''id'', PInt (fst r)) #
     map (\<lambda>(c, x). (c, case x of None \<Rightarrow> PNone | Some s \<Rightarrow> PStr s)) (zip cols (snd r))"

definition sql_select_all :: "manager \<Rightarrow> string \<Rightarrow> exn + pyrow list" where
  \<comment> \<open>\<open>SELECT * FROM "t" ORDER BY id\<close>\<close>
  "sql_select_all m t =
     (case map_of (tables m) (resolve_table (tables m) t) of
        None \<Rightarrow> Inl (OperationalError NoSuchName)
      | Some tb \<Rightarrow> Inr (map (row_dict (tcols tb)) (sort_key fst (trows tb))))"

definition registry_insert :: "manager \<Rightarrow> string \<Rightarrow> string \<Rightarrow> exn + manager" where
  \<comment> \<open>\<open>INSERT INTO _spreadsheet_meta (name, columns) VALUES (?, ?)\<close>; \<open>name\<close> is the primary key\<close>
  "registry_insert m n cols =
     (if map_of (meta m) n \<noteq> None then Inl IntegrityError
      else Inr (m\<lparr>meta := meta m @ [(n, cols)]\<rparr>))"

definition registry_update :: "manager \<Rightarrow> string \<Rightarrow> string \<Rightarrow> manager" where
  \<comment> \<open>\<open>UPDATE _spreadsheet_meta SET columns = ? WHERE name = ?\<close>\<close>
  "registry_update m n cols =
     m\<lparr>meta := map (\<lambda>(k, c). if k = n then (k, cols) else (k, c)) (meta m)\<rparr>"

definition registry_delete :: "manager \<Rightarrow> string \<Rightarrow> manager" where
  \<comment> \<open>\<open>DELETE FROM _spreadsheet_meta WHERE name = ?\<close>\<close>
  "registry_delete m n = m\<lparr>meta := filter (\<lambda>p. fst p \<noteq> n) (meta m)\<rparr>"

section \<open>The spreadsheet manager\<close>

text \<open>
  Each method takes the manager and returns the exception that leaves the method, or the
  manager after the call with the dict the method returns. The optional argument
  \<open>spreadsheet\<close> is a \<open>string option\<close>.
\<close>

definition spreadsheet_exists :: "manager \<Rightarrow> string \<Rightarrow> bool" where
  "spreadsheet_exists m n = (map_of (meta m) n \<noteq> None)"

definition target :: "manager \<Rightarrow> string option \<Rightarrow> string option" where
  \<comment> \<open>\<open>table = spreadsheet or self.current_spreadsheet\<close>, then \<open>if not table\<close>: the result
      is \<open>None\<close> when \<open>table\<close> is falsy\<close>
  "target m spreadsheet =
     (let table = (case spreadsheet of
                     None \<Rightarrow> current_spreadsheet m
                   | Some s \<Rightarrow> if s \<noteq> [] then Some s else current_spreadsheet m)
      in case table of None \<Rightarrow> None | Some t \<Rightarrow> if t \<noteq> [] then Some t else None)"

definition get_columns :: "manager \<Rightarrow> string option \<Rightarrow> string list" where
  "get_columns m spreadsheet =
     (case target m spreadsheet of
        None \<Rightarrow> []
      | Some table \<Rightarrow>
         (case map_of (meta m) table of
            None \<Rightarrow> []
          | Some cols \<Rightarrow> if cols \<noteq> [] then split CHR '','' cols else []))"

fun sanitize_all :: "string list \<Rightarrow> exn + string list" where
  \<comment> \<open>\<open>[self._sanitize_name(c) for c in columns]\<close>\<close>
  "sanitize_all [] = Inr []"
| "sanitize_all (c # cs) =
     (case sanitize_name c of
        Inl e \<Rightarrow> Inl e
      | Inr x \<Rightarrow> (case sanitize_all cs of Inl e \<Rightarrow> Inl e | Inr xs \<Rightarrow> Inr (x # xs)))"

definition create_spreadsheet ::
  "manager \<Rightarrow> string \<Rightarrow> string list \<Rightarrow> exn + manager \<times> outcome" where
  "create_spreadsheet m name columns =
     (case sanitize_name name of
        Inl e \<Rightarrow> Inl e
      | Inr table_name \<Rightarrow>
          if spreadsheet_exists m table_name
          then Inr (m, Failure (''Spreadsheet '' @ quoted name @ '' already exists''))
          else
            (case sanitize_all columns of
               Inl e \<Rightarrow> Inl e
             | Inr sanitized_columns \<Rightarrow>
                (case sql_create_table m table_name sanitized_columns of
                   Inl e \<Rightarrow> Inl e
                 | Inr m1 \<Rightarrow>
                    (case registry_insert m1 table_name (join '','' sanitized_columns) of
                       Inl e \<Rightarrow> Inl e
                     | Inr m2 \<Rightarrow>
                         Inr (m2\<lparr>current_spreadsheet := Some table_name\<rparr>,
                              Created table_name sanitized_columns
                                (''Created spreadsheet '' @ quoted name @ '' with columns: ''
                                 @ join '', '' columns))))))"

fun sanitize_data ::
  "string list \<Rightarrow> (string \<times> string) list \<Rightarrow> (string \<times> string) list
   \<Rightarrow> exn + (string \<times> string) list" where
  \<comment> \<open>the loop of \<open>add_row\<close> over \<open>data.items()\<close>, with \<open>sanitized_data\<close> as accumulator\<close>
  "sanitize_data columns [] sanitized_data = Inr sanitized_data"
| "sanitize_data columns ((key, val) # rest) sanitized_data =
     (case sanitize_name key of
        Inl e \<Rightarrow> Inl e
      | Inr sanitized_key \<Rightarrow>
          sanitize_data columns rest
            (if sanitized_key \<in> set columns then dict_set sanitized_key val sanitized_data
             else sanitized_data))"

definition add_row ::
  "manager \<Rightarrow> (string \<times> string) list \<Rightarrow> string option \<Rightarrow> exn + manager \<times> outcome" where
  "add_row m data spreadsheet =
     (case target m spreadsheet of
        None \<Rightarrow> Inr (m, Failure ''No spreadsheet selected'')
      | Some table \<Rightarrow>
         (case sanitize_data (get_columns m (Some table)) data [] of
            Inl e \<Rightarrow> Inl e
          | Inr sanitized_data \<Rightarrow>
              if sanitized_data = [] then Inr (m, Failure ''No valid columns in data'')
              else
                (case sql_insert m table sanitized_data of
                   Inl e \<Rightarrow> Inl e
                 | Inr (m1, lastrowid) \<Rightarrow>
                     Inr (m1, RowAdded lastrowid (''Added row '' @ str_int lastrowid)))))"

definition add_column ::
  "manager \<Rightarrow> string \<Rightarrow> string \<Rightarrow> string option \<Rightarrow> exn + manager \<times> outcome" where
  "add_column m column_name default_value spreadsheet =
     (case target m spreadsheet of
        None \<Rightarrow> Inr (m, Failure ''No spreadsheet selected'')
      | Some table \<Rightarrow>
         (case sanitize_name column_name of
            Inl e \<Rightarrow> Inl e
          | Inr sanitized \<Rightarrow>
              let columns = get_columns m (Some table) in
              if sanitized \<in> set columns
              then Inr (m, Failure (''Column '' @ quoted column_name @ '' already exists''))
              else
                (case sql_alter_add_column_default_param m table sanitized default_value of
                   Inl e \<Rightarrow> Inl e
                 | Inr m1 \<Rightarrow>
                     Inr (registry_update m1 table (join '','' (columns @ [sanitized])),
                          ColumnAdded sanitized (''Added column '' @ quoted column_name)))))"

definition edit_cell ::
  "manager \<Rightarrow> int \<Rightarrow> string \<Rightarrow> string \<Rightarrow> string option \<Rightarrow> exn + manager \<times> outcome" where
  "edit_cell m row_id column val spreadsheet =
     (case target m spreadsheet of
        None \<Rightarrow> Inr (m, Failure ''No spreadsheet selected'')
      | Some table \<Rightarrow>
         (case sanitize_name column of
            Inl e \<Rightarrow> Inl e
          | Inr sanitized_col \<Rightarrow>
              if sanitized_col \<notin> set (get_columns m (Some table))
              then Inr (m, Failure (''Column '' @ quoted column @ '' not found''))
              else
                (case sql_update m table sanitized_col val row_id of
                   Inl e \<Rightarrow> Inl e
                 | Inr (m1, rowcount) \<Rightarrow>
                     if rowcount = 0
                     then Inr (m1, Failure (''Row '' @ str_int row_id @ '' not found''))
                     else Inr (m1, Done (''Updated row '' @ str_int row_id @ '', column ''
                                         @ quoted column @ '' to '' @ quoted val)))))"

definition delete_row ::
  "manager \<Rightarrow> int \<Rightarrow> string option \<Rightarrow> exn + manager \<times> outcome" where
  "delete_row m row_id spreadsheet =
     (case target m spreadsheet of
        None \<Rightarrow> Inr (m, Failure ''No spreadsheet selected'')
      | Some table \<Rightarrow>
         (case sql_delete m table row_id of
            Inl e \<Rightarrow> Inl e
          | Inr (m1, rowcount) \<Rightarrow>
              if rowcount = 0
              then Inr (m1, Failure (''Row '' @ str_int row_id @ '' not found''))
              else Inr (m1, Done (''Deleted row '' @ str_int row_id))))"

definition delete_column ::
  "manager \<Rightarrow> string \<Rightarrow> string option \<Rightarrow> exn + manager \<times> outcome" where
  "delete_column m column_name spreadsheet =
     (case target m spreadsheet of
        None \<Rightarrow> Inr (m, Failure ''No spreadsheet selected'')
      | Some table \<Rightarrow>
         (case sanitize_name column_name of
            Inl e \<Rightarrow> Inl e
          | Inr sanitized \<Rightarrow>
              if sanitized \<notin> set (get_columns m (Some table))
              then Inr (m, Failure (''Column '' @ quoted column_name @ '' not found''))
              else
                let columns = remove1 sanitized (get_columns m (Some table));
                    temp_table = ''_temp_'' @ table
                in
                (case sql_create_table m temp_table columns of
                   Inl e \<Rightarrow> Inl e
                 | Inr m1 \<Rightarrow>
                  (case sql_insert_select m1 temp_table columns table of
                     Inl e \<Rightarrow> Inl e
                   | Inr m2 \<Rightarrow>
                    (case sql_drop_table m2 table of
                       Inl e \<Rightarrow> Inl e
                     | Inr m3 \<Rightarrow>
                      (case sql_rename_table m3 temp_table table of
                         Inl e \<Rightarrow> Inl e
                       | Inr m4 \<Rightarrow>
                           Inr (registry_update m4 table (join '','' columns),
                                Done (''Deleted column '' @ quoted column_name))))))))"

definition get_data :: "manager \<Rightarrow> string option \<Rightarrow> exn + outcome" where
  "get_data m spreadsheet =
     (case target m spreadsheet of
        None \<Rightarrow> Inr (DataFailure ''No spreadsheet selected'')
      | Some table \<Rightarrow>
         (case sql_select_all m table of
            Inl e \<Rightarrow> Inl e
          | Inr rows \<Rightarrow> Inr (Data table (''id'' # get_columns m (Some table)) rows)))"

definition switch_spreadsheet :: "manager \<Rightarrow> string \<Rightarrow> exn + manager \<times> outcome" where
  "switch_spreadsheet m name =
     (case sanitize_name name of
        Inl e \<Rightarrow> Inl e
      | Inr table \<Rightarrow>
          if \<not> spreadsheet_exists m table
          then Inr (m, Failure (''Spreadsheet '' @ quoted name @ '' not found''))
          else Inr (m\<lparr>current_spreadsheet := Some table\<rparr>,
                    Switched table (''Switched to spreadsheet '' @ quoted name)))"

definition delete_spreadsheet :: "manager \<Rightarrow> string \<Rightarrow> exn + manager \<times> outcome" where
  "delete_spreadsheet m name =
     (case sanitize_name name of
        Inl e \<Rightarrow> Inl e
      | Inr table \<Rightarrow>
          if \<not> spreadsheet_exists m table
          then Inr (m, Failure (''Spreadsheet '' @ quoted name @ '' not found''))
          else
            let m1 = registry_delete (sql_drop_table_if_exists m table) table;
                m2 = (if current_spreadsheet m1 = Some table
                      then m1\<lparr>current_spreadsheet := None\<rparr> else m1)
            in Inr (m2, Done (''Deleted spreadsheet '' @ quoted name)))"

section \<open>CSV export\<close>

text \<open>
  \<open>export_csv\<close> writes through \<open>csv.DictWriter\<close> with the default dialect: comma,
  double quote, minimal quoting, doubled quotes, line terminator CR LF, on a file opened
  with \<open>newline=""\<close>. The model returns the dict of the method and the file it wrote
  (path and content). What the operating system answers is a parameter: whether creating
  the directory \<open>exports\<close> fails, whether opening a path for writing fails (at the moment
  \<open>export_csv\<close> opens it), and which characters the default encoding of text files can
  encode. \<open>OSError\<close> stands for its subclasses (FileNotFoundError, IsADirectoryError,
  PermissionError and the like).
\<close>

record os_env =
  mkdir_exports :: "exn option"
  open_write :: "string \<Rightarrow> exn option"
  encodable :: "char \<Rightarrow> bool"

definition file_write :: "os_env \<Rightarrow> string \<Rightarrow> exn + string" where
  \<comment> \<open>\<open>f.write(s)\<close>: the text written, or UnicodeEncodeError\<close>
  "file_write env s = (if list_all (encodable env) s then Inr s else Inl UnicodeEncodeError)"

definition CR :: char where "CR = CHR 0x0D"
definition LF :: char where "LF = CHR 0x0A"
definition DQ :: char where "DQ = CHR 0x22"

definition cell_str :: "pyval \<Rightarrow> string" where
  \<comment> \<open>what the writer emits for a value: nothing for None, \<open>str\<close> otherwise\<close>
  "cell_str v = (case v of PNone \<Rightarrow> [] | PInt i \<Rightarrow> str_int i | PStr x \<Rightarrow> x)"

definition csv_special :: "char \<Rightarrow> bool" where
  "csv_special c = (c = CHR '','' \<or> c = DQ \<or> c = CR \<or> c = LF)"

definition csv_escape :: "string \<Rightarrow> string" where
  \<comment> \<open>every quote character doubled\<close>
  "csv_escape f = concat (map (\<lambda>c. if c = DQ then [DQ, DQ] else [c]) f)"

definition csv_field :: "string \<Rightarrow> string" where
  "csv_field f = (if list_ex csv_special f then DQ # csv_escape f @ [DQ] else f)"

definition csv_writerow :: "string list \<Rightarrow> string" where
  \<comment> \<open>a record that would be empty, a single empty field, is written as two quotes\<close>
  "csv_writerow fs =
     (let body = join '','' (map csv_field fs)
      in (if fs \<noteq> [] \<and> body = [] then [DQ, DQ] else body) @ [CR, LF])"

definition dict_get :: "pyrow \<Rightarrow> string \<Rightarrow> pyval" where
  \<comment> \<open>\<open>row.get(key, "")\<close>\<close>
  "dict_get row k = (case map_of row k of None \<Rightarrow> PStr [] | Some v \<Rightarrow> v)"

definition dict_to_list :: "string list \<Rightarrow> pyrow \<Rightarrow> exn + pyval list" where
  \<comment> \<open>\<open>DictWriter._dict_to_list\<close> with \<open>extrasaction="raise"\<close> and \<open>restval=""\<close>\<close>
  "dict_to_list fieldnames row =
     (if list_ex (\<lambda>k. k \<notin> set fieldnames) (map fst row) then Inl ValueError
      else Inr (map (dict_get row) fieldnames))"

fun writerows :: "os_env \<Rightarrow> string list \<Rightarrow> pyrow list \<Rightarrow> exn + string" where
  \<comment> \<open>each row is converted and written before the next one is looked at\<close>
  "writerows env fieldnames [] = Inr []"
| "writerows env fieldnames (row # rows) =
     (case dict_to_list fieldnames row of
        Inl e \<Rightarrow> Inl e
      | Inr vals \<Rightarrow>
         (case file_write env (csv_writerow (map cell_str vals)) of
            Inl e \<Rightarrow> Inl e
          | Inr line \<Rightarrow>
             (case writerows env fieldnames rows of
                Inl e \<Rightarrow> Inl e
              | Inr rest \<Rightarrow> Inr (line @ rest))))"

definition export_path :: "os_env \<Rightarrow> string option \<Rightarrow> string \<Rightarrow> exn + string" where
  \<comment> \<open>the \<open>if path is None\<close> block: only there is the directory created\<close>
  "export_path env path table =
     (case path of
        Some p \<Rightarrow> Inr p
      | None \<Rightarrow> (case mkdir_exports env of
                   Some e \<Rightarrow> Inl e
                 | None \<Rightarrow> Inr (''exports/'' @ table @ ''.csv'')))"

definition export_csv ::
  "os_env \<Rightarrow> manager \<Rightarrow> string option \<Rightarrow> string option
   \<Rightarrow> exn + outcome \<times> (string \<times> string) option" where
  "export_csv env m path spreadsheet =
     (case target m spreadsheet of
        None \<Rightarrow> Inr (Failure ''No spreadsheet selected'', None)
      | Some table \<Rightarrow>
         (case export_path env path table of
            Inl e \<Rightarrow> Inl e
          | Inr path1 \<Rightarrow>
             (case get_data m (Some table) of
                Inl e \<Rightarrow> Inl e
              | Inr (Data sp columns rows) \<Rightarrow>
                 (case open_write env path1 of
                    Some e \<Rightarrow> Inl e
                  | None \<Rightarrow>
                     (case file_write env (csv_writerow columns) of
                        Inl e \<Rightarrow> Inl e
                      | Inr header \<Rightarrow>
                         (case writerows env columns rows of
                            Inl e \<Rightarrow> Inl e
                          | Inr body \<Rightarrow>
                              Inr (Exported path1 (''Exported to '' @ path1),
                                   Some (path1, header @ body)))))
              | Inr other \<Rightarrow> Inr (other, None))))"

subsection \<open>Reading a CSV file back\<close>

text \<open>
  The reader is \<open>csv.reader\<close> with the same dialect on a file opened with \<open>newline=""\<close>:
  the file yields its lines with their terminators (LF, CR, or CR LF), the reader feeds
  each character of a line and then an end-of-line mark to its state machine, and returns
  a record whenever the machine is back at the start of a record. The end-of-line mark is
  \<open>None\<close>. A field may hold at most \<open>csv.field_size_limit()\<close> characters, 131072 unless
  the caller changes it.
\<close>

definition field_limit :: int where
  "field_limit = 131072"

datatype pstate =
  START_RECORD | START_FIELD | IN_FIELD | IN_QUOTED_FIELD | QUOTE_IN_QUOTED_FIELD | EAT_CRNL

record reader =
  rstate :: pstate
  rfield :: string
  rfields :: "string list"
  rrecords :: "string list list"

definition parse_save_field :: "reader \<Rightarrow> reader" where
  "parse_save_field r = r\<lparr>rfields := rfields r @ [rfield r], rfield := []\<rparr>"

definition push_char :: "reader \<Rightarrow> char \<Rightarrow> reader" where
  "push_char r c = r\<lparr>rfield := rfield r @ [c]\<rparr>"

definition parse_add_char :: "reader \<Rightarrow> char \<Rightarrow> exn + reader" where
  \<comment> \<open>raises "field larger than field limit" when the field is full\<close>
  "parse_add_char r c =
     (if field_limit \<le> int (length (rfield r)) then Inl CsvError else Inr (push_char r c))"

definition add_then :: "reader \<Rightarrow> char \<Rightarrow> pstate \<Rightarrow> exn + reader" where
  \<comment> \<open>\<open>parse_add_char\<close> followed by a change of state\<close>
  "add_then r c st =
     (case parse_add_char r c of Inl e \<Rightarrow> Inl e | Inr r1 \<Rightarrow> Inr (r1\<lparr>rstate := st\<rparr>))"

definition is_nl :: "char option \<Rightarrow> bool" where
  "is_nl c = (c = Some LF \<or> c = Some CR)"

definition after_line :: "char option \<Rightarrow> pstate" where
  "after_line c = (if c = None then START_RECORD else EAT_CRNL)"

definition start_field :: "reader \<Rightarrow> char option \<Rightarrow> exn + reader" where
  "start_field r c =
     (if is_nl c \<or> c = None then Inr ((parse_save_field r)\<lparr>rstate := after_line c\<rparr>)
      else if c = Some DQ then Inr (r\<lparr>rstate := IN_QUOTED_FIELD\<rparr>)
      else if c = Some CHR '','' then Inr ((parse_save_field r)\<lparr>rstate := START_FIELD\<rparr>)
      else add_then r (the c) IN_FIELD)"

definition parse_process_char :: "reader \<Rightarrow> char option \<Rightarrow> exn + reader" where
  "parse_process_char r c =
     (case rstate r of
        START_RECORD \<Rightarrow>
          if c = None then Inr r
          else if is_nl c then Inr (r\<lparr>rstate := EAT_CRNL\<rparr>)
          else start_field r c
      | START_FIELD \<Rightarrow> start_field r c
      | IN_FIELD \<Rightarrow>
          if is_nl c \<or> c = None then Inr ((parse_save_field r)\<lparr>rstate := after_line c\<rparr>)
          else if c = Some CHR '','' then Inr ((parse_save_field r)\<lparr>rstate := START_FIELD\<rparr>)
          else parse_add_char r (the c)
      | IN_QUOTED_FIELD \<Rightarrow>
          if c = None then Inr r
          else if c = Some DQ then Inr (r\<lparr>rstate := QUOTE_IN_QUOTED_FIELD\<rparr>)
          else parse_add_char r (the c)
      | QUOTE_IN_QUOTED_FIELD \<Rightarrow>
          if c = Some DQ then add_then r DQ IN_QUOTED_FIELD
          else if c = Some CHR '','' then Inr ((parse_save_field r)\<lparr>rstate := START_FIELD\<rparr>)
          else if is_nl c \<or> c = None then Inr ((parse_save_field r)\<lparr>rstate := after_line c\<rparr>)
          else add_then r (the c) IN_FIELD
      | EAT_CRNL \<Rightarrow>
          if is_nl c then Inr r
          else if c = None then Inr (r\<lparr>rstate := START_RECORD\<rparr>)
          else Inl CsvError)"

fun feed_chars :: "reader \<Rightarrow> string \<Rightarrow> exn + reader" where
  "feed_chars r [] = Inr r"
| "feed_chars r (c # cs) =
     (case parse_process_char r (Some c) of Inl e \<Rightarrow> Inl e | Inr r1 \<Rightarrow> feed_chars r1 cs)"

definition return_record :: "reader \<Rightarrow> reader" where
  \<comment> \<open>the reader hands out \<open>fields\<close> and starts the next record afresh\<close>
  "return_record r =
     \<lparr>rstate = START_RECORD, rfield = [], rfields = [], rrecords = rrecords r @ [rfields r]\<rparr>"

definition end_line :: "reader \<Rightarrow> exn + reader" where
  "end_line r =
     (case parse_process_char r None of
        Inl e \<Rightarrow> Inl e
      | Inr r1 \<Rightarrow> Inr (if rstate r1 = START_RECORD then return_record r1 else r1))"

definition feed_line :: "reader \<Rightarrow> string \<Rightarrow> exn + reader" where
  "feed_line r l = (case feed_chars r l of Inl e \<Rightarrow> Inl e | Inr r1 \<Rightarrow> end_line r1)"

definition end_of_input :: "reader \<Rightarrow> reader" where
  \<comment> \<open>an unfinished record at the end of the file is returned when a field is pending\<close>
  "end_of_input r =
     (if rfield r \<noteq> [] \<or> rstate r = IN_QUOTED_FIELD
      then return_record (parse_save_field r) else r)"

fun read_lines :: "reader \<Rightarrow> string list \<Rightarrow> exn + reader" where
  "read_lines r [] = Inr (end_of_input r)"
| "read_lines r (l # ls) =
     (case feed_line r l of Inl e \<Rightarrow> Inl e | Inr r1 \<Rightarrow> read_lines r1 ls)"

fun splitlines :: "string \<Rightarrow> string \<Rightarrow> string list" where
  \<comment> \<open>the lines of a text file read with \<open>newline=""\<close>; the first argument is the line
      collected so far\<close>
  "splitlines acc [] = (if acc = [] then [] else [acc])"
| "splitlines acc [c] =
     [acc @ [c]]"
| "splitlines acc (c # d # cs) =
     (if c = LF then (acc @ [c]) # splitlines [] (d # cs)
      else if c = CR \<and> d = LF then (acc @ [c, d]) # splitlines [] cs
      else if c = CR then (acc @ [c]) # splitlines [] (d # cs)
      else splitlines (acc @ [c]) (d # cs))"

definition csv_reader :: "string \<Rightarrow> exn + string list list" where
  "csv_reader text =
     (case read_lines \<lparr>rstate = START_RECORD, rfield = [], rfields = [], rrecords = []\<rparr>
             (splitlines [] text) of
        Inl e \<Rightarrow> Inl e
      | Inr r \<Rightarrow> Inr (rrecords r))"

section \<open>The plot heuristic\<close>

text \<open>
  The part of \<open>plot_data_tool\<close> up to the choice of the plot type. Whether Python's
  \<open>float\<close> accepts a string is the parameter \<open>float_ok\<close>. The result is the error text of
  an early return, or the value of \<open>plot_type\<close> after the automatic choice.
\<close>

definition truthy :: "pyval \<Rightarrow> bool" where
  "truthy v = (case v of PNone \<Rightarrow> False | PInt i \<Rightarrow> i \<noteq> 0 | PStr x \<Rightarrow> x \<noteq> [])"

definition py_str :: "pyval \<Rightarrow> string" where
  "py_str v = (case v of PNone \<Rightarrow> ''None'' | PInt i \<Rightarrow> str_int i | PStr x \<Rightarrow> x)"

definition strip_money :: "string \<Rightarrow> string" where
  \<comment> \<open>\<open>.replace(",", "").replace("$", "")\<close>\<close>
  "strip_money x = filter (\<lambda>c. c \<noteq> CHR ''$'') (filter (\<lambda>c. c \<noteq> CHR '','') x)"

definition is_numeric_column :: "(string \<Rightarrow> bool) \<Rightarrow> pyrow list \<Rightarrow> string \<Rightarrow> bool" where
  "is_numeric_column float_ok rows col =
     list_ex (\<lambda>row. let v = dict_get row col in truthy v \<and> float_ok (strip_money (py_str v))) rows"

definition plottable_cols :: "string list \<Rightarrow> string list" where
  "plottable_cols columns = filter (\<lambda>c. c \<noteq> ''id'') columns"

definition numeric_cols :: "(string \<Rightarrow> bool) \<Rightarrow> pyrow list \<Rightarrow> string list \<Rightarrow> string list" where
  "numeric_cols float_ok rows columns =
     filter (is_numeric_column float_ok rows) (plottable_cols columns)"

definition categorical_cols :: "(string \<Rightarrow> bool) \<Rightarrow> pyrow list \<Rightarrow> string list \<Rightarrow> string list" where
  "categorical_cols float_ok rows columns =
     filter (\<lambda>c. c \<notin> set (numeric_cols float_ok rows columns)) (plottable_cols columns)"

definition auto_plot_type ::
  "(string \<Rightarrow> bool) \<Rightarrow> string \<Rightarrow> string list \<Rightarrow> pyrow list \<Rightarrow> string + string" where
  "auto_plot_type float_ok plot_type_arg columns rows =
     (if rows = [] then Inl ''Error: No data to plot. The spreadsheet is empty.''
      else
        let plot_type = strip (lower plot_type_arg) in
        if plottable_cols columns = []
        then Inl ''Error: No plottable columns in the spreadsheet.''
        else
          let numeric = numeric_cols float_ok rows columns;
              categorical = categorical_cols float_ok rows columns
          in if plot_type \<noteq> [] then Inr plot_type
             else if length numeric \<ge> 2 then Inr ''scatter''
             else if length numeric = 1 \<and> categorical \<noteq> [] then Inr ''bar''
             else if length numeric = 1 then Inr ''histogram''
             else if categorical \<noteq> [] then Inr ''bar''
             else Inr ''bar'')"

section \<open>Sequences of operations\<close>

datatype command =
    CreateSpreadsheet string "string list"
  | AddRow "(string \<times> string) list"
  | AddColumn string string
  | EditCell int string string
  | DeleteRow int
  | DeleteColumn string
  | SwitchSpreadsheet string
  | DeleteSpreadsheet string

fun exec :: "manager \<Rightarrow> command \<Rightarrow> exn + manager \<times> outcome" where
  \<comment> \<open>one call on the current selection, as the tool layer makes it\<close>
  "exec m (CreateSpreadsheet n cs) = create_spreadsheet m n cs"
| "exec m (AddRow d) = add_row m d None"
| "exec m (AddColumn c d) = add_column m c d None"
| "exec m (EditCell i c v) = edit_cell m i c v None"
| "exec m (DeleteRow i) = delete_row m i None"
| "exec m (DeleteColumn c) = delete_column m c None"
| "exec m (SwitchSpreadsheet n) = switch_spreadsheet m n"
| "exec m (DeleteSpreadsheet n) = delete_spreadsheet m n"

fun run :: "manager \<Rightarrow> command list \<Rightarrow> exn + manager \<times> outcome list" where
  \<comment> \<open>the calls in order; the first exception ends the run\<close>
  "run m [] = Inr (m, [])"
| "run m (c # cs) =
     (case exec m c of
        Inl e \<Rightarrow> Inl e
      | Inr (m1, out) \<Rightarrow>
         (case run m1 cs of Inl e \<Rightarrow> Inl e | Inr (m2, outs) \<Rightarrow> Inr (m2, out # outs)))"

section \<open>Well-formed stores\<close>

definition ident :: "string \<Rightarrow> bool" where
  "ident x = (x \<noteq> [] \<and> list_all ident_char x)"

definition wf_table :: "table \<Rightarrow> bool" where
  "wf_table tb =
     (tcols tb \<noteq> [] \<and> distinct (''id'' # tcols tb) \<and> list_all ident (tcols tb)
      \<and> list_all (\<lambda>r. length (snd r) = length (tcols tb)) (trows tb)
      \<and> distinct (map fst (trows tb)))"

definition wf :: "manager \<Rightarrow> bool" where
  \<comment> \<open>the registry and the physical tables agree: the same names, each once, and each
      registry row holds the comma-joined columns of its table; the selection is registered\<close>
  "wf m =
     (distinct (map fst (meta m)) \<and> distinct (map fst (tables m))
      \<and> list_all (\<lambda>n. n \<in> set (map fst (meta m))) (map fst (tables m))
      \<and> list_all (\<lambda>(n, cs). case map_of (tables m) n of
                               None \<Rightarrow> False
                             | Some tb \<Rightarrow> wf_table tb \<and> cs = join '','' (tcols tb)) (meta m)
      \<and> (case current_spreadsheet m of None \<Rightarrow> True | Some t \<Rightarrow> t \<noteq> [] \<and> spreadsheet_exists m t))"

definition row_ids :: "manager \<Rightarrow> string \<Rightarrow> int list" where
  "row_ids m t = (case map_of (tables m) t of None \<Rightarrow> [] | Some tb \<Rightarrow> map fst (trows tb))"

section \<open>Sample stores\<close>

definition sample_store :: manager where
  \<comment> \<open>the store after creating "t" with columns a, b and adding two rows\<close>
  "sample_store =
     \<lparr>meta = [(''t'', ''a,b'')],
      tables = [(''t'', \<lparr>tcols = [''a'', ''b''],
                         trows = [(1, [Some ''x'', None]), (2, [Some ''y'', Some ''z''])]\<rparr>)],
      sqlite_sequence = [(''t'', 2)],
      current_spreadsheet = Some ''t''\<rparr>"

definition list_store :: manager where
  \<comment> \<open>the store after creating "my_list" with the column a\<close>
  "list_store =
     \<lparr>meta = [(''my_list'', ''a'')],
      tables = [(''my_list'', \<lparr>tcols = [''a''], trows = []\<rparr>)],
      sqlite_sequence = [],
      current_spreadsheet = Some ''my_list''\<rparr>"

definition two_stores :: manager where
  \<comment> \<open>two spreadsheets, "t" selected\<close>
  "two_stores =
     \<lparr>meta = [(''my_list'', ''a''), (''t'', ''a,b'')],
      tables = [(''my_list'', \<lparr>tcols = [''a''], trows = []\<rparr>),
                (''t'', \<lparr>tcols = [''a'', ''b''], trows = [(1, [Some ''x'', None])]\<rparr>)],
      sqlite_sequence = [(''t'', 1)],
      current_spreadsheet = Some ''t''\<rparr>"

definition text_rows :: "pyrow list \<Rightarrow> bool" where
  \<comment> \<open>rows as the store delivers them: only the key \<open>id\<close> holds an int\<close>
  "text_rows rows =
     list_all (\<lambda>row. list_all (\<lambda>(k, v). k = ''id'' \<or> (case v of PInt i \<Rightarrow> False | _ \<Rightarrow> True)) row)
              rows"

definition digits_ok :: "string \<Rightarrow> bool" where
  \<comment> \<open>a sample instance of \<open>float_ok\<close>: the unsigned decimal integers, which \<open>float\<close> accepts\<close>
  "digits_ok x = (x \<noteq> [] \<and> list_all is_digit_ascii x)"

definition expenses :: "pyrow list" where
  "expenses =
     [[(''id'', PInt 1), (''category'', PStr ''food''), (''amount'', PStr ''$1,200'')],
      [(''id'', PInt 2), (''category'', PStr ''rent''), (''amount'', PNone)]]"

definition points :: "pyrow list" where
  "points =
     [[(''id'', PInt 1), (''x'', PStr ''3''), (''y'', PStr ''40'')],
      [(''id'', PInt 2), (''x'', PStr ''n/a''), (''y'', PStr '''')]]"

section \<open>A character-level view of the reader\<close>

text \<open>
  The same reader without the intermediate list of lines: the end-of-line mark is fed
  after a LF, after a CR that no LF follows, and after the last character of the file.
  The flag says whether the current line has a character already.
\<close>

definition line_ends :: "char \<Rightarrow> string \<Rightarrow> bool" where
  "line_ends c cs = (c = LF \<or> (c = CR \<and> (case cs of [] \<Rightarrow> True | d # _ \<Rightarrow> d \<noteq> LF)))"

fun scan :: "reader \<Rightarrow> bool \<Rightarrow> string \<Rightarrow> exn + reader" where
  "scan r p [] =
     (if p then (case end_line r of Inl e \<Rightarrow> Inl e | Inr r1 \<Rightarrow> Inr (end_of_input r1))
      else Inr (end_of_input r))"
| "scan r p (c # cs) =
     (case parse_process_char r (Some c) of
        Inl e \<Rightarrow> Inl e
      | Inr r1 \<Rightarrow>
          if line_ends c cs
          then (case end_line r1 of Inl e \<Rightarrow> Inl e | Inr r2 \<Rightarrow> scan r2 False cs)
          else scan r1 True cs)"





definition lookup_cell :: "table \<Rightarrow> int \<Rightarrow> string \<Rightarrow> string option option" where
  \<comment> \<open>the cell of row \<open>i\<close> under column \<open>k\<close>: \<open>None\<close> when the row or the column is missing,
      \<open>Some None\<close> for NULL\<close>
  "lookup_cell tb i k =
     (case map_of (trows tb) i of None \<Rightarrow> None | Some cells \<Rightarrow> map_of (zip (tcols tb) cells) k)"

section \<open>The sanitizer\<close>

lemma code_char_of: "n < 256 \<Longrightarrow> code (char_of n) = n"
  by (simp add: code_def)

lemma isspace_lower_char: "isspace (lower_char c) = isspace c"
  unfolding isspace_def lower_char_def is_upper_ascii_def
  by (auto simp: code_char_of)

lemma dropWhile_isspace_lower: "dropWhile isspace (lower s) = lower (dropWhile isspace s)"
  by (induction s) (auto simp: lower_def isspace_lower_char)

lemma rev_lower: "rev (lower s) = lower (rev s)"
  by (simp add: lower_def rev_map)

lemma strip_lower: "strip (lower s) = lower (strip s)"
  by (simp add: strip_def dropWhile_isspace_lower rev_lower)

lemma lower_char_not_upper: "\<not> is_upper_ascii (lower_char c)"
  unfolding lower_char_def is_upper_ascii_def
  by (auto simp: code_char_of)

lemma re_keep_lower: "re_keep (lower_char c) = ident_char (lower_char c)"
  by (simp add: re_keep_def ident_char_def lower_char_not_upper)

lemma re_sub_lower: "re_sub (lower s) = map (\<lambda>c. if ident_char c then c else CHR ''_'') (lower s)"
  by (simp add: re_sub_def lower_def re_keep_lower)

lemma ident_re_sub_lower: "\<forall>c \<in> set (re_sub (lower s)). ident_char c"
  by (auto simp: re_sub_lower ident_char_def)

lemma ident_isdigit: "ident_char c \<Longrightarrow> isdigit c = is_digit_ascii c"
  unfolding ident_char_def isdigit_def is_lower_ascii_def is_digit_ascii_def
  by (auto simp: code_def)

lemma ident_lower_char: "ident_char c \<Longrightarrow> lower_char c = c"
  unfolding ident_char_def lower_char_def is_lower_ascii_def is_digit_ascii_def is_upper_ascii_def
  by (auto simp: code_def)

lemma ident_not_space: "ident_char c \<Longrightarrow> \<not> isspace c"
  unfolding ident_char_def isspace_def is_lower_ascii_def is_digit_ascii_def
  by (auto simp: code_def)

lemma ident_re_keep: "ident_char c \<Longrightarrow> re_keep c"
  by (auto simp: ident_char_def re_keep_def)

lemma lower_ident: "\<forall>c \<in> set s. ident_char c \<Longrightarrow> lower s = s"
  by (induction s) (auto simp: lower_def ident_lower_char)

lemma re_sub_ident: "\<forall>c \<in> set s. ident_char c \<Longrightarrow> re_sub s = s"
  by (induction s) (auto simp: re_sub_def ident_re_keep)

lemma strip_ident: "\<forall>c \<in> set s. ident_char c \<Longrightarrow> strip s = s"
proof -
  assume a: "\<forall>c \<in> set s. ident_char c"
  have 1: "dropWhile isspace s = s"
    using a by (cases s) (auto simp: ident_not_space)
  have 2: "dropWhile isspace (rev s) = rev s"
    using a by (cases "rev s") (auto simp: ident_not_space dest: arg_cong[where f=set])
  show ?thesis by (simp add: strip_def 1 2)
qed

lemma sanitize_fixed:
  assumes "\<forall>c \<in> set y. ident_char c" "y \<noteq> []" "\<not> starts_with_digit y"
  shows "sanitize_name y = Inr y"
  using assms
  by (cases y) (auto simp: sanitize_name_def lower_ident strip_ident re_sub_ident
      starts_with_digit_def ident_isdigit)

text \<open>
  C9. The claim describes the sanitizer as lowercasing, replacing and prefixing. The code
  also strips leading and trailing whitespace before it replaces, so on an input with a
  leading blank the two differ.
\<close>

theorem sanitize_name_strips:
  "sanitize_name '' a'' = Inr ''a'' \<and> spec_sanitize '' a'' = ''_a''"
  by code_simp

text \<open>
  C9, as the code has it. For every input whose stripped form is not empty, the sanitizer
  returns the specification's rule applied to the stripped input; the result is a fixed
  point of the sanitizer, does not start with a digit, and contains only characters of
  \<open>[a-z0-9_]\<close>.
\<close>

theorem sanitize_name_props:
  assumes "strip (lower x) \<noteq> []"
  shows "\<exists>y. sanitize_name x = Inr y \<and> y = spec_sanitize (strip x)
             \<and> sanitize_name y = Inr y \<and> \<not> starts_with_digit y \<and> (\<forall>c\<in>set y. ident_char c)"
proof -
  define r where "r = re_sub (strip (lower x))"
  have rne: "r \<noteq> []" using assms by (simp add: r_def re_sub_def)
  have rid: "\<forall>c \<in> set r. ident_char c"
    unfolding r_def strip_lower by (rule ident_re_sub_lower)
  define y where "y = (if starts_with_digit r then CHR ''_'' # r else r)"
  have dig: "isdigit (hd r) = starts_with_digit r"
    using rne rid by (cases r) (auto simp: starts_with_digit_def ident_isdigit)
  have s: "sanitize_name x = Inr y"
    using rne dig unfolding sanitize_name_def r_def[symmetric] y_def
    by (cases r) (auto simp: Let_def)
  have sp: "y = spec_sanitize (strip x)"
    unfolding y_def spec_sanitize_def r_def strip_lower re_sub_lower by (simp add: Let_def)
  have yid: "\<forall>c\<in>set y. ident_char c"
    using rid by (auto simp: y_def ident_char_def)
  have ynd: "\<not> starts_with_digit y"
    by (auto simp: y_def starts_with_digit_def is_digit_ascii_def code_def)
  have yne: "y \<noteq> []" using rne by (simp add: y_def)
  show ?thesis using s sp yid ynd sanitize_fixed[OF yid yne ynd] by blast
qed

theorem sanitize_name_props_witness:
  "strip (lower '' 9 Lives! '') \<noteq> []
   \<and> (\<exists>y. sanitize_name '' 9 Lives! '' = Inr y \<and> y = spec_sanitize (strip '' 9 Lives! '')
           \<and> sanitize_name y = Inr y \<and> \<not> starts_with_digit y \<and> (\<forall>c\<in>set y. ident_char c))
   \<and> sanitize_name '' 9 Lives! '' = Inr ''_9_lives_''"
proof -
  have h: "strip (lower '' 9 Lives! '') \<noteq> []" by code_simp
  have v: "sanitize_name '' 9 Lives! '' = Inr ''_9_lives_''" by code_simp
  from sanitize_name_props[OF h] h v show ?thesis by blast
qed

section \<open>Unhandled exceptions\<close>

text \<open>
  C2. The claim says that no storage operation ends in an unhandled exception, also for
  empty or whitespace-only names. The sanitizer indexes the first character of the
  stripped name, so an empty or blank name raises IndexError out of every operation that
  sanitizes a name.
\<close>

theorem blank_name_raises:
  "create_spreadsheet init '''' [''a''] = Inl IndexError
   \<and> create_spreadsheet init ''  '' [''a''] = Inl IndexError
   \<and> switch_spreadsheet sample_store '' '' = Inl IndexError
   \<and> delete_spreadsheet sample_store '''' = Inl IndexError
   \<and> edit_cell sample_store 1 '''' ''v'' None = Inl IndexError
   \<and> add_row sample_store [('' '', ''v'')] None = Inl IndexError"
  by code_simp

text \<open>
  C3. The claim says that add_column with a new column name adds the column and applies
  the default. The ALTER TABLE statement binds the default as a parameter, which SQLite
  rejects, so the call raises and the registry is never updated.
\<close>

theorem add_column_new_raises:
  "get_columns sample_store None = [''a'', ''b'']
   \<and> add_column sample_store ''c'' ''0'' None = Inl (OperationalError SyntaxError)
   \<and> run init [CreateSpreadsheet ''t'' [''a''], AddColumn ''b'' ''x'']
       = Inl (OperationalError SyntaxError)"
  by code_simp

text \<open>
  C1. The claim says that delete_column with a column that is present succeeds. When the
  column is the only one, the CREATE TABLE statement of the rebuild has no column after
  \<open>id\<close> and is a syntax error, so the call raises.
\<close>

theorem delete_last_column_raises:
  "get_columns list_store None = [''a'']
   \<and> delete_column list_store ''a'' None = Inl (OperationalError SyntaxError)
   \<and> run init [CreateSpreadsheet ''t'' [''a''], DeleteColumn ''a'']
       = Inl (OperationalError SyntaxError)"
  by code_simp

text \<open>
  C10. The claim says that a row id freed by delete_row is never assigned again, also
  after a delete_column rebuild. The rebuilt table starts its own AUTOINCREMENT sequence
  at the largest id copied: after rows 1 and 2, deleting row 2 and then column b, the next
  add_row returns id 2 again.
\<close>

theorem rebuild_reuses_row_id:
  "run init [CreateSpreadsheet ''t'' [''a'', ''b''], AddRow [(''a'', ''x'')],
             AddRow [(''a'', ''y'')], DeleteRow 2, DeleteColumn ''b'', AddRow [(''a'', ''z'')]]
   = Inr (\<lparr>meta = [(''t'', ''a'')],
            tables = [(''t'', \<lparr>tcols = [''a''],
                               trows = [(1, [Some ''x'']), (2, [Some ''z''])]\<rparr>)],
            sqlite_sequence = [(''t'', 2)],
            current_spreadsheet = Some ''t''\<rparr>,
          [Created ''t'' [''a'', ''b'']
             (''Created spreadsheet '' @ quoted ''t'' @ '' with columns: a, b''),
           RowAdded 1 ''Added row 1'', RowAdded 2 ''Added row 2'', Done ''Deleted row 2'',
           Done (''Deleted column '' @ quoted ''b''), RowAdded 2 ''Added row 2''])"
  by code_simp

section \<open>Creating a spreadsheet twice\<close>

text \<open>
  C4. The claim says that the "already exists" message names the sanitized form. The
  message is built from the name the caller supplied: creating "My List" when "my_list"
  is registered reports 'My List'.
\<close>

theorem duplicate_message_names_original:
  "sanitize_name ''My List'' = Inr ''my_list''
   \<and> create_spreadsheet list_store ''My List'' [''a'']
       = Inr (list_store, Failure (''Spreadsheet '' @ quoted ''My List'' @ '' already exists''))
   \<and> ''Spreadsheet '' @ quoted ''My List'' @ '' already exists''
       \<noteq> ''Spreadsheet '' @ quoted ''my_list'' @ '' already exists''"
  by code_simp

text \<open>
  C4, as the code has it. When the sanitized form of the name is already registered,
  create_spreadsheet fails with an "already exists" error that names the name as supplied,
  and the store is unchanged.
\<close>

theorem create_spreadsheet_duplicate:
  assumes "sanitize_name name = Inr t" and "spreadsheet_exists m t"
  shows "create_spreadsheet m name columns
           = Inr (m, Failure (''Spreadsheet '' @ quoted name @ '' already exists''))"
  using assms by (simp add: create_spreadsheet_def)

theorem create_spreadsheet_duplicate_witness:
  "sanitize_name ''My_List'' = Inr ''my_list'' \<and> spreadsheet_exists list_store ''my_list''
   \<and> create_spreadsheet list_store ''My_List'' [''b'']
       = Inr (list_store, Failure (''Spreadsheet '' @ quoted ''My_List'' @ '' already exists''))"
proof -
  have h1: "sanitize_name ''My_List'' = Inr ''my_list''" by code_simp
  have h2: "spreadsheet_exists list_store ''my_list''" by code_simp
  from create_spreadsheet_duplicate[OF h1 h2] h1 h2 show ?thesis by blast
qed

section \<open>Well-formed stores and the registry\<close>

lemma ident_char_not_comma: "ident_char c \<Longrightarrow> c \<noteq> CHR '',''"
  by (auto simp: ident_char_def is_lower_ascii_def is_digit_ascii_def code_def)

lemma split_no_sep: "d \<notin> set x \<Longrightarrow> split d (x @ d # rest) = x # split d rest"
  by (induction x) auto

lemma split_no_sep_end: "d \<notin> set x \<Longrightarrow> split d x = [x]"
  by (induction x) auto

lemma ident_no_comma: "ident x \<Longrightarrow> CHR '','' \<notin> set x"
  by (auto simp: ident_def list_all_iff dest: ident_char_not_comma)

lemma split_join: "list_all ident cols \<Longrightarrow> cols \<noteq> [] \<Longrightarrow> split CHR '','' (join '','' cols) = cols"
proof (induction "'',''" cols rule: join.induct)
  case 1
  then show ?case by simp
next
  case (2 x)
  then show ?case by (simp add: split_no_sep_end ident_no_comma)
next
  case (3 x y ys)
  then show ?case using split_no_sep[of "CHR '',''" x "join '','' (y # ys)"]
    by (simp add: ident_no_comma)
qed

lemma join_nonempty: "list_all ident cols \<Longrightarrow> cols \<noteq> [] \<Longrightarrow> join sep cols \<noteq> []"
  by (induction sep cols rule: join.induct) (auto simp: ident_def)

lemma target_Some [simp]: "t \<noteq> [] \<Longrightarrow> target m (Some t) = Some t"
  by (simp add: target_def)

lemma target_nonempty: "target m sp = Some t \<Longrightarrow> t \<noteq> []"
  by (auto simp: target_def Let_def split: option.splits if_splits)

lemma wf_registered:
  assumes "wf m" "map_of (meta m) t = Some cs"
  shows "\<exists>tb. map_of (tables m) t = Some tb \<and> wf_table tb \<and> cs = join '','' (tcols tb)"
proof -
  from assms(2) have mem: "(t, cs) \<in> set (meta m)" by (rule map_of_SomeD)
  from assms(1) have "list_all (\<lambda>(n, cs). case map_of (tables m) n of
                               None \<Rightarrow> False
                             | Some tb \<Rightarrow> wf_table tb \<and> cs = join '','' (tcols tb)) (meta m)"
    unfolding wf_def by blast
  with mem have "case map_of (tables m) t of None \<Rightarrow> False
                 | Some tb \<Rightarrow> wf_table tb \<and> cs = join '','' (tcols tb)"
    unfolding list_all_iff by blast
  then show ?thesis by (cases "map_of (tables m) t") auto
qed

lemma get_columns_wf:
  assumes "wf m" "t \<noteq> []" "map_of (tables m) t = Some tb" "spreadsheet_exists m t"
  shows "get_columns m (Some t) = tcols tb" "wf_table tb"
proof -
  from assms(4) obtain cs where cs: "map_of (meta m) t = Some cs"
    by (auto simp: spreadsheet_exists_def)
  from wf_registered[OF assms(1) cs] assms(3)
  have w: "wf_table tb" and j: "cs = join '','' (tcols tb)" by auto
  from w have a: "list_all ident (tcols tb)" "tcols tb \<noteq> []" by (auto simp: wf_table_def)
  show "wf_table tb" by (rule w)
  show "get_columns m (Some t) = tcols tb"
    using assms(2) cs j split_join[OF a] join_nonempty[OF a]
    by (simp add: get_columns_def)
qed

lemma get_columns_unregistered:
  "t \<noteq> [] \<Longrightarrow> \<not> spreadsheet_exists m t \<Longrightarrow> get_columns m (Some t) = []"
  by (auto simp: get_columns_def spreadsheet_exists_def split: option.splits)

lemma wf_table_exists:
  assumes "wf m" "spreadsheet_exists m t"
  shows "\<exists>tb. map_of (tables m) t = Some tb"
  using assms wf_registered by (fastforce simp: spreadsheet_exists_def)

lemma set_table_absent: "t \<notin> fst ` set ts \<Longrightarrow> set_table t tb ts = ts"
  unfolding set_table_def by (induction ts) auto

lemma set_table_same:
  "distinct (map fst ts) \<Longrightarrow> map_of ts t = Some tb \<Longrightarrow> set_table t tb ts = ts"
proof (induction ts)
  case Nil
  then show ?case by simp
next
  case (Cons p ts)
  show ?case
  proof (cases "fst p = t")
    case True
    with Cons.prems have "snd p = tb" "t \<notin> fst ` set ts" by auto
    with True set_table_absent[of t ts tb] show ?thesis
      by (cases p) (simp add: set_table_def)
  next
    case False
    with Cons show ?thesis by (cases p) (simp add: set_table_def)
  qed
qed

lemma map_rows_no_match:
  "rid \<notin> fst ` set rows \<Longrightarrow> map (\<lambda>(i, cells). if i = rid then (i, f cells) else (i, cells)) rows = rows"
  by (induction rows) auto

lemma filter_no_match: "rid \<notin> fst ` set rows \<Longrightarrow> filter (\<lambda>r. fst r = rid) rows = []"
  by (induction rows) auto


lemma sql_update_no_row:
  assumes "distinct (map fst (tables m))" "map_of (tables m) t = Some tb" "c \<in> set (tcols tb)"
    "rid \<notin> set (map fst (trows tb))" "int64 rid"
  shows "sql_update m t c v rid = Inr (m, 0)"
proof -
  have "tb\<lparr>trows := trows tb\<rparr> = tb" by simp
  then show ?thesis using assms
    by (simp add: sql_update_def map_rows_no_match filter_no_match set_table_same)
qed

section \<open>Editing a cell\<close>

text \<open>
  When the column has a sanitized form and the row id is a 64-bit integer, edit_cell on a
  well-formed store with a target selected returns a not-found error if the sanitized
  column is not a column of the target or no row of the target has the id, and the store
  after the call is the store before it. Every store that a sequence of operations reaches
  from the initial one is well-formed (\<open>reachable_wf\<close> below).
\<close>

lemma edit_cell_missing:
  assumes "wf m" "target m spreadsheet = Some t" "sanitize_name column = Inr c"
    and "int64 row_id"
    and "c \<notin> set (get_columns m (Some t)) \<or> row_id \<notin> set (row_ids m t)"
  shows "edit_cell m row_id column v spreadsheet =
           Inr (m, Failure (if c \<notin> set (get_columns m (Some t))
                            then ''Column '' @ quoted column @ '' not found''
                            else ''Row '' @ str_int row_id @ '' not found''))"
proof (cases "c \<in> set (get_columns m (Some t))")
  case False
  then show ?thesis using assms(2,3) by (simp add: edit_cell_def)
next
  case True
  have tne: "t \<noteq> []" using assms(2) by (rule target_nonempty)
  have reg: "spreadsheet_exists m t"
    using True get_columns_unregistered[OF tne] by fastforce
  from wf_table_exists[OF assms(1) reg] obtain tb where tb: "map_of (tables m) t = Some tb" ..
  have cols: "get_columns m (Some t) = tcols tb" by (rule get_columns_wf[OF assms(1) tne tb reg])
  have d: "distinct (map fst (tables m))" using assms(1) by (simp add: wf_def)
  from True assms(5) have "row_id \<notin> set (row_ids m t)" by simp
  then have nr: "row_id \<notin> set (map fst (trows tb))" using tb by (simp add: row_ids_def)
  have "sql_update m t c v row_id = Inr (m, 0)"
    using sql_update_no_row[OF d tb _ nr assms(4)] True cols by simp
  then show ?thesis using assms(2,3) True by (simp add: edit_cell_def)
qed

lemma edit_cell_missing_sample:
  "edit_cell sample_store 1 ''Zed'' ''v'' None
     = Inr (sample_store, Failure (''Column '' @ quoted ''Zed'' @ '' not found''))
   \<and> edit_cell sample_store 7 ''A'' ''v'' None
       = Inr (sample_store, Failure ''Row 7 not found'')"
proof -
  have w: "wf sample_store" by code_simp
  have t: "target sample_store None = Some ''t''" by code_simp
  have s1: "sanitize_name ''Zed'' = Inr ''zed''" by code_simp
  have s2: "sanitize_name ''A'' = Inr ''a''" by code_simp
  have i1: "int64 1" and i7: "int64 7" by (simp_all add: int64_def)
  have c1: "''zed'' \<notin> set (get_columns sample_store (Some ''t''))" by code_simp
  have c2: "''a'' \<in> set (get_columns sample_store (Some ''t''))" by code_simp
  have r2: "7 \<notin> set (row_ids sample_store ''t'')" by code_simp
  have n: "str_int 7 = ''7''" by code_simp
  have h1: "''zed'' \<notin> set (get_columns sample_store (Some ''t''))
            \<or> 1 \<notin> set (row_ids sample_store ''t'')" using c1 by simp
  have h2: "''a'' \<notin> set (get_columns sample_store (Some ''t''))
            \<or> 7 \<notin> set (row_ids sample_store ''t'')" using r2 by simp
  from edit_cell_missing[OF w t s1 i1 h1, of "''v''"]
       edit_cell_missing[OF w t s2 i7 h2, of "''v''"]
  show ?thesis using c1 c2 n by simp
qed

text \<open>
  C7. The claim says that edit_cell returns a not-found error, and leaves the spreadsheet
  as it was, whenever the sanitized column is unknown or no row has the given id. The
  code gets to its not-found answers only when nothing raises before them. On the store
  with table t, columns a and b and rows 1 and 2, no row has the id 9223372036854775808, one more than
  the largest 64-bit integer: the UPDATE statement cannot bind it and edit_cell raises
  OverflowError. No row has the id 7 either:
  with a blank column name the sanitizer raises IndexError before any row is looked at.
\<close>

theorem edit_cell_raises:
  "target sample_store None = Some ''t''
   \<and> sanitize_name ''a'' = Inr ''a''
   \<and> ''a'' \<in> set (get_columns sample_store (Some ''t''))
   \<and> 9223372036854775808 \<notin> set (row_ids sample_store ''t'')
   \<and> edit_cell sample_store 9223372036854775808 ''a'' ''v'' None = Inl OverflowError
   \<and> 7 \<notin> set (row_ids sample_store ''t'')
   \<and> edit_cell sample_store 7 ''  '' ''v'' None = Inl IndexError"
  by code_simp

section \<open>Deleting a spreadsheet\<close>

lemma map_of_filter_fst:
  "map_of (filter (\<lambda>p. fst p \<noteq> t) xs) n = (if n = t then None else map_of xs n)"
  by (induction xs) auto

lemma target_None_unselected: "current_spreadsheet m = None \<Longrightarrow> target m None = None"
  by (simp add: target_def)

text \<open>
  C8. delete_spreadsheet on a registered spreadsheet removes its physical table and its
  registry row and leaves every other table and registry row as it was; the selection is
  cleared when it was this spreadsheet and is unchanged otherwise; and after deleting the
  selected spreadsheet every operation called without a target fails with "No spreadsheet
  selected".
\<close>

theorem delete_spreadsheet_effect:
  assumes "sanitize_name name = Inr t" and "spreadsheet_exists m t"
  shows "\<exists>m1. delete_spreadsheet m name = Inr (m1, Done (''Deleted spreadsheet '' @ quoted name))
     \<and> map_of (tables m1) t = None \<and> \<not> spreadsheet_exists m1 t
     \<and> (\<forall>n. n \<noteq> t \<longrightarrow> map_of (tables m1) n = map_of (tables m) n
                       \<and> map_of (meta m1) n = map_of (meta m) n)
     \<and> current_spreadsheet m1
         = (if current_spreadsheet m = Some t then None else current_spreadsheet m)
     \<and> (current_spreadsheet m = Some t \<longrightarrow>
          add_row m1 d None = Inr (m1, Failure ''No spreadsheet selected'')
        \<and> add_column m1 c dv None = Inr (m1, Failure ''No spreadsheet selected'')
        \<and> edit_cell m1 i c v None = Inr (m1, Failure ''No spreadsheet selected'')
        \<and> delete_row m1 i None = Inr (m1, Failure ''No spreadsheet selected'')
        \<and> delete_column m1 c None = Inr (m1, Failure ''No spreadsheet selected'')
        \<and> get_data m1 None = Inr (DataFailure ''No spreadsheet selected'')
        \<and> export_csv env m1 p None = Inr (Failure ''No spreadsheet selected'', None))"
proof -
  define m0 where "m0 = registry_delete (sql_drop_table_if_exists m t) t"
  define m1 where "m1 = (if current_spreadsheet m0 = Some t
                         then m0\<lparr>current_spreadsheet := None\<rparr> else m0)"
  have res: "delete_spreadsheet m name = Inr (m1, Done (''Deleted spreadsheet '' @ quoted name))"
    using assms by (simp add: delete_spreadsheet_def m1_def m0_def Let_def)
  have tabs: "tables m1 = filter (\<lambda>p. fst p \<noteq> t) (tables m)"
    and reg: "meta m1 = filter (\<lambda>p. fst p \<noteq> t) (meta m)"
    and cur: "current_spreadsheet m1
                = (if current_spreadsheet m = Some t then None else current_spreadsheet m)"
    by (simp_all add: m1_def m0_def registry_delete_def sql_drop_table_if_exists_def)
  have gone: "map_of (tables m1) t = None" "\<not> spreadsheet_exists m1 t"
    by (simp_all add: tabs reg spreadsheet_exists_def map_of_filter_fst)
  have frame: "\<forall>n. n \<noteq> t \<longrightarrow> map_of (tables m1) n = map_of (tables m) n
                       \<and> map_of (meta m1) n = map_of (meta m) n"
    by (simp add: tabs reg map_of_filter_fst)
  have unsel: "current_spreadsheet m = Some t \<longrightarrow>
          add_row m1 d None = Inr (m1, Failure ''No spreadsheet selected'')
        \<and> add_column m1 c dv None = Inr (m1, Failure ''No spreadsheet selected'')
        \<and> edit_cell m1 i c v None = Inr (m1, Failure ''No spreadsheet selected'')
        \<and> delete_row m1 i None = Inr (m1, Failure ''No spreadsheet selected'')
        \<and> delete_column m1 c None = Inr (m1, Failure ''No spreadsheet selected'')
        \<and> get_data m1 None = Inr (DataFailure ''No spreadsheet selected'')
        \<and> export_csv env m1 p None = Inr (Failure ''No spreadsheet selected'', None)"
  proof
    assume "current_spreadsheet m = Some t"
    then have "target m1 None = None" using cur by (simp add: target_None_unselected)
    then show "add_row m1 d None = Inr (m1, Failure ''No spreadsheet selected'')
        \<and> add_column m1 c dv None = Inr (m1, Failure ''No spreadsheet selected'')
        \<and> edit_cell m1 i c v None = Inr (m1, Failure ''No spreadsheet selected'')
        \<and> delete_row m1 i None = Inr (m1, Failure ''No spreadsheet selected'')
        \<and> delete_column m1 c None = Inr (m1, Failure ''No spreadsheet selected'')
        \<and> get_data m1 None = Inr (DataFailure ''No spreadsheet selected'')
        \<and> export_csv env m1 p None = Inr (Failure ''No spreadsheet selected'', None)"
      by (simp add: add_row_def add_column_def edit_cell_def delete_row_def delete_column_def
          get_data_def export_csv_def)
  qed
  from res gone frame cur unsel show ?thesis by blast
qed

theorem delete_spreadsheet_effect_witness:
  "sanitize_name ''T'' = Inr ''t'' \<and> spreadsheet_exists sample_store ''t''
   \<and> current_spreadsheet sample_store = Some ''t''
   \<and> delete_spreadsheet sample_store ''T'' = Inr (init, Done (''Deleted spreadsheet '' @ quoted ''T''))
   \<and> add_row init [(''a'', ''x'')] None = Inr (init, Failure ''No spreadsheet selected'')
   \<and> get_data init None = Inr (DataFailure ''No spreadsheet selected'')
   \<and> sanitize_name ''my list'' = Inr ''my_list'' \<and> spreadsheet_exists two_stores ''my_list''
   \<and> (\<exists>m1. delete_spreadsheet two_stores ''my list''
              = Inr (m1, Done (''Deleted spreadsheet '' @ quoted ''my list''))
          \<and> current_spreadsheet m1 = Some ''t'')"
proof -
  have h1: "sanitize_name ''T'' = Inr ''t''" by code_simp
  have h2: "spreadsheet_exists sample_store ''t''" by code_simp
  have h3: "current_spreadsheet sample_store = Some ''t''" by code_simp
  have h4: "sanitize_name ''my list'' = Inr ''my_list''" by code_simp
  have h5: "spreadsheet_exists two_stores ''my_list''" by code_simp
  have h6: "current_spreadsheet two_stores = Some ''t''" by code_simp
  have v: "delete_spreadsheet sample_store ''T''
             = Inr (init, Done (''Deleted spreadsheet '' @ quoted ''T''))" by code_simp
  from delete_spreadsheet_effect[OF h1 h2, of "[(''a'', ''x'')]"] v h3
  have a: "add_row init [(''a'', ''x'')] None = Inr (init, Failure ''No spreadsheet selected'')
           \<and> get_data init None = Inr (DataFailure ''No spreadsheet selected'')"
    by auto
  from delete_spreadsheet_effect[OF h4 h5] h6
  have b: "\<exists>m1. delete_spreadsheet two_stores ''my list''
              = Inr (m1, Done (''Deleted spreadsheet '' @ quoted ''my list''))
          \<and> current_spreadsheet m1 = Some ''t''"
    by fastforce
  from h1 h2 h3 h4 h5 v a b show ?thesis by blast
qed

section \<open>Choosing the plot type\<close>

lemma text_rows_get:
  assumes "text_rows rows" "row \<in> set rows" "c \<noteq> ''id''"
  shows "dict_get row c = PNone \<or> (\<exists>x. dict_get row c = PStr x)"
proof (cases "map_of row c")
  case None
  then show ?thesis by (simp add: dict_get_def)
next
  case (Some v)
  then have "(c, v) \<in> set row" by (rule map_of_SomeD)
  with assms have "case v of PInt i \<Rightarrow> False | _ \<Rightarrow> True"
    by (auto simp: text_rows_def list_all_iff)
  with Some show ?thesis by (cases v) (auto simp: dict_get_def)
qed

lemma is_numeric_column_text:
  assumes "text_rows rows" "c \<noteq> ''id''"
  shows "is_numeric_column float_ok rows c
         \<longleftrightarrow> (\<exists>row \<in> set rows. \<exists>x. dict_get row c = PStr x \<and> x \<noteq> [] \<and> float_ok (strip_money x))"
proof
  assume "is_numeric_column float_ok rows c"
  then obtain row where r: "row \<in> set rows" "truthy (dict_get row c)"
      "float_ok (strip_money (py_str (dict_get row c)))"
    by (auto simp: is_numeric_column_def list_ex_iff Let_def)
  from text_rows_get[OF assms(1) r(1) assms(2)] r(2)
  obtain x where "dict_get row c = PStr x" by (auto simp: truthy_def)
  with r show "\<exists>row \<in> set rows. \<exists>x. dict_get row c = PStr x \<and> x \<noteq> [] \<and> float_ok (strip_money x)"
    by (auto simp: truthy_def py_str_def)
next
  assume "\<exists>row \<in> set rows. \<exists>x. dict_get row c = PStr x \<and> x \<noteq> [] \<and> float_ok (strip_money x)"
  then obtain row x where r: "row \<in> set rows" "dict_get row c = PStr x" "x \<noteq> []"
      "float_ok (strip_money x)" by blast
  then have "truthy (dict_get row c) \<and> float_ok (strip_money (py_str (dict_get row c)))"
    by (simp add: truthy_def py_str_def)
  with r(1) show "is_numeric_column float_ok rows c"
    unfolding is_numeric_column_def list_ex_iff Let_def by blast
qed

lemma plottable_not_id: "c \<in> set (plottable_cols columns) \<Longrightarrow> c \<noteq> ''id''"
  by (simp add: plottable_cols_def)

lemma numeric_plottable:
  "numeric_cols float_ok rows columns \<noteq> [] \<Longrightarrow> plottable_cols columns \<noteq> []"
  by (auto simp: numeric_cols_def)

lemma categorical_plottable:
  "categorical_cols float_ok rows columns \<noteq> [] \<Longrightarrow> plottable_cols columns \<noteq> []"
  by (auto simp: categorical_cols_def)

text \<open>
  C5. For a non-empty row set and no plot type supplied, a column other than id is numeric
  iff some row holds under it a non-empty string that float accepts after the removal of
  every comma and dollar sign, and categorical otherwise; the plot type chosen is scatter
  with at least two numeric columns, bar with exactly one numeric and at least one
  categorical column, histogram with exactly one numeric and no categorical column, and
  bar with categorical columns only.
\<close>

theorem auto_plot_type_choice:
  assumes "rows \<noteq> []" and "strip (lower plot_type_arg) = []" and "text_rows rows"
  shows "(\<forall>c \<in> set (plottable_cols columns).
            (c \<in> set (numeric_cols float_ok rows columns)
               \<longleftrightarrow> (\<exists>row \<in> set rows. \<exists>x. dict_get row c = PStr x \<and> x \<noteq> []
                                          \<and> float_ok (strip_money x)))
          \<and> (c \<in> set (categorical_cols float_ok rows columns)
               \<longleftrightarrow> c \<notin> set (numeric_cols float_ok rows columns)))
       \<and> (length (numeric_cols float_ok rows columns) \<ge> 2
            \<longrightarrow> auto_plot_type float_ok plot_type_arg columns rows = Inr ''scatter'')
       \<and> (length (numeric_cols float_ok rows columns) = 1
            \<and> categorical_cols float_ok rows columns \<noteq> []
            \<longrightarrow> auto_plot_type float_ok plot_type_arg columns rows = Inr ''bar'')
       \<and> (length (numeric_cols float_ok rows columns) = 1
            \<and> categorical_cols float_ok rows columns = []
            \<longrightarrow> auto_plot_type float_ok plot_type_arg columns rows = Inr ''histogram'')
       \<and> (numeric_cols float_ok rows columns = []
            \<and> categorical_cols float_ok rows columns \<noteq> []
            \<longrightarrow> auto_plot_type float_ok plot_type_arg columns rows = Inr ''bar'')"
proof -
  let ?N = "numeric_cols float_ok rows columns"
  let ?C = "categorical_cols float_ok rows columns"
  let ?r = "auto_plot_type float_ok plot_type_arg columns rows"
  have cls: "\<forall>c \<in> set (plottable_cols columns).
            (c \<in> set ?N
               \<longleftrightarrow> (\<exists>row \<in> set rows. \<exists>x. dict_get row c = PStr x \<and> x \<noteq> []
                                          \<and> float_ok (strip_money x)))
          \<and> (c \<in> set ?C \<longleftrightarrow> c \<notin> set ?N)"
  proof
    fix c assume c: "c \<in> set (plottable_cols columns)"
    then have "c \<noteq> ''id''" by (rule plottable_not_id)
    from is_numeric_column_text[OF assms(3) this, of float_ok] c
    show "(c \<in> set ?N
               \<longleftrightarrow> (\<exists>row \<in> set rows. \<exists>x. dict_get row c = PStr x \<and> x \<noteq> []
                                          \<and> float_ok (strip_money x)))
          \<and> (c \<in> set ?C \<longleftrightarrow> c \<notin> set ?N)"
      by (simp add: numeric_cols_def categorical_cols_def)
  qed
  have scatter: "length ?N \<ge> 2 \<longrightarrow> ?r = Inr ''scatter''"
  proof
    assume a: "length ?N \<ge> 2"
    then have "?N \<noteq> []" by auto
    then have "plottable_cols columns \<noteq> []" by (rule numeric_plottable)
    with a assms(1,2) show "?r = Inr ''scatter''" by (simp add: auto_plot_type_def Let_def)
  qed
  have bar1: "length ?N = 1 \<and> ?C \<noteq> [] \<longrightarrow> ?r = Inr ''bar''"
  proof
    assume a: "length ?N = 1 \<and> ?C \<noteq> []"
    then have "plottable_cols columns \<noteq> []" using categorical_plottable by blast
    with a assms(1,2) show "?r = Inr ''bar''" by (simp add: auto_plot_type_def Let_def)
  qed
  have hist: "length ?N = 1 \<and> ?C = [] \<longrightarrow> ?r = Inr ''histogram''"
  proof
    assume a: "length ?N = 1 \<and> ?C = []"
    then have "?N \<noteq> []" by auto
    then have "plottable_cols columns \<noteq> []" by (rule numeric_plottable)
    with a assms(1,2) show "?r = Inr ''histogram''" by (simp add: auto_plot_type_def Let_def)
  qed
  have bar0: "?N = [] \<and> ?C \<noteq> [] \<longrightarrow> ?r = Inr ''bar''"
  proof
    assume a: "?N = [] \<and> ?C \<noteq> []"
    then have "plottable_cols columns \<noteq> []" using categorical_plottable by blast
    with a assms(1,2) show "?r = Inr ''bar''" by (simp add: auto_plot_type_def Let_def)
  qed
  from cls scatter bar1 hist bar0 show ?thesis by blast
qed

theorem auto_plot_type_choice_witness:
  "expenses \<noteq> [] \<and> strip (lower '' '') = [] \<and> text_rows expenses
   \<and> numeric_cols digits_ok expenses [''id'', ''category'', ''amount''] = [''amount'']
   \<and> categorical_cols digits_ok expenses [''id'', ''category'', ''amount''] = [''category'']
   \<and> auto_plot_type digits_ok '' '' [''id'', ''category'', ''amount''] expenses = Inr ''bar''
   \<and> points \<noteq> [] \<and> text_rows points
   \<and> numeric_cols digits_ok points [''id'', ''x'', ''y''] = [''x'', ''y'']
   \<and> auto_plot_type digits_ok '' '' [''id'', ''x'', ''y''] points = Inr ''scatter''
   \<and> numeric_cols digits_ok points [''id'', ''x''] = [''x'']
   \<and> categorical_cols digits_ok points [''id'', ''x''] = []
   \<and> auto_plot_type digits_ok '' '' [''id'', ''x''] points = Inr ''histogram''
   \<and> numeric_cols digits_ok points [''id'', ''y'', ''z''] = [''y'']
   \<and> numeric_cols digits_ok expenses [''id'', ''category''] = []
   \<and> categorical_cols digits_ok expenses [''id'', ''category''] = [''category'']
   \<and> auto_plot_type digits_ok '' '' [''id'', ''category''] expenses = Inr ''bar''"
proof -
  have e: "expenses \<noteq> []" by code_simp
  have p: "points \<noteq> []" by code_simp
  have s: "strip (lower '' '') = []" by code_simp
  have te: "text_rows expenses" by code_simp
  have tp: "text_rows points" by code_simp
  have n1: "numeric_cols digits_ok expenses [''id'', ''category'', ''amount''] = [''amount'']"
    by code_simp
  have c1: "categorical_cols digits_ok expenses [''id'', ''category'', ''amount''] = [''category'']"
    by code_simp
  have n2: "numeric_cols digits_ok points [''id'', ''x'', ''y''] = [''x'', ''y'']" by code_simp
  have n3: "numeric_cols digits_ok points [''id'', ''x''] = [''x'']" by code_simp
  have c3: "categorical_cols digits_ok points [''id'', ''x''] = []" by code_simp
  have n4: "numeric_cols digits_ok points [''id'', ''y'', ''z''] = [''y'']" by code_simp
  have n5: "numeric_cols digits_ok expenses [''id'', ''category''] = []" by code_simp
  have c5: "categorical_cols digits_ok expenses [''id'', ''category''] = [''category'']"
    by code_simp
  from auto_plot_type_choice[OF e s te, of "[''id'', ''category'', ''amount'']" digits_ok] n1 c1
  have r1: "auto_plot_type digits_ok '' '' [''id'', ''category'', ''amount''] expenses = Inr ''bar''"
    by simp
  from auto_plot_type_choice[OF p s tp, of "[''id'', ''x'', ''y'']" digits_ok] n2
  have r2: "auto_plot_type digits_ok '' '' [''id'', ''x'', ''y''] points = Inr ''scatter''"
    by simp
  from auto_plot_type_choice[OF p s tp, of "[''id'', ''x'']" digits_ok] n3 c3
  have r3: "auto_plot_type digits_ok '' '' [''id'', ''x''] points = Inr ''histogram''"
    by simp
  from auto_plot_type_choice[OF e s te, of "[''id'', ''category'']" digits_ok] n5 c5
  have r4: "auto_plot_type digits_ok '' '' [''id'', ''category''] expenses = Inr ''bar''"
    by simp
  from e p s te tp n1 c1 n2 n3 c3 n4 n5 c5 r1 r2 r3 r4 show ?thesis by blast
qed

section \<open>Reading back what the writer wrote\<close>

lemma feed_chars_append:
  "feed_chars r (a @ b) = (case feed_chars r a of Inl e \<Rightarrow> Inl e | Inr r1 \<Rightarrow> feed_chars r1 b)"
  by (induction a arbitrary: r) (auto split: sum.splits)

lemma feed_chars_snoc:
  "feed_chars r (a @ [c])
     = (case feed_chars r a of Inl e \<Rightarrow> Inl e | Inr r1 \<Rightarrow> parse_process_char r1 (Some c))"
  by (simp add: feed_chars_append split: sum.splits)

lemma feed_chars_snoc2:
  "feed_chars r (a @ [c, d])
     = (case feed_chars r a of
          Inl e \<Rightarrow> Inl e
        | Inr r1 \<Rightarrow> (case parse_process_char r1 (Some c) of
                      Inl e \<Rightarrow> Inl e
                    | Inr r2 \<Rightarrow> parse_process_char r2 (Some d)))"
  by (simp add: feed_chars_append split: sum.splits)

lemma read_lines_scan:
  "read_lines r (splitlines acc s)
     = (case feed_chars r acc of Inl e \<Rightarrow> Inl e | Inr r1 \<Rightarrow> scan r1 (acc \<noteq> []) s)"
proof (induction acc s arbitrary: r rule: splitlines.induct)
  case (1 acc)
  then show ?case by (auto simp: feed_line_def split: sum.splits)
next
  case (2 acc c)
  then show ?case
    by (auto simp: feed_line_def feed_chars_snoc line_ends_def split: sum.splits)
next
  case (3 acc c d cs)
  show ?case
  proof (cases "c = LF")
    case True
    then show ?thesis using 3(1)
      by (auto simp: feed_line_def feed_chars_snoc line_ends_def split: sum.splits)
  next
    case nlf: False
    show ?thesis
    proof (cases "c = CR")
      case True
      show ?thesis
      proof (cases "d = LF")
        case dlf: True
        from nlf True dlf 3(2) show ?thesis
          by (auto simp: feed_line_def feed_chars_snoc2 line_ends_def split: sum.splits)
      next
        case False
        with nlf True 3(3) show ?thesis
          by (auto simp: feed_line_def feed_chars_snoc line_ends_def split: sum.splits)
      qed
    next
      case False
      with nlf 3(4) show ?thesis
        by (auto simp: feed_chars_snoc line_ends_def split: sum.splits)
    qed
  qed
qed

lemma csv_reader_scan:
  "csv_reader s
     = (case scan \<lparr>rstate = START_RECORD, rfield = [], rfields = [], rrecords = []\<rparr> False s of
          Inl e \<Rightarrow> Inl e | Inr r \<Rightarrow> Inr (rrecords r))"
  by (simp add: csv_reader_def read_lines_scan)


lemma step_plain_in_field:
  "rstate r = IN_FIELD \<Longrightarrow> \<not> csv_special c \<Longrightarrow> int (length (rfield r)) < field_limit
   \<Longrightarrow> parse_process_char r (Some c) = Inr (push_char r c)"
  by (simp add: parse_process_char_def parse_add_char_def is_nl_def csv_special_def)

lemma step_plain_full:
  "rstate r = IN_FIELD \<Longrightarrow> \<not> csv_special c \<Longrightarrow> field_limit \<le> int (length (rfield r))
   \<Longrightarrow> parse_process_char r (Some c) = Inl CsvError"
  by (simp add: parse_process_char_def parse_add_char_def is_nl_def csv_special_def)

lemma step_plain_start:
  "rstate r = START_FIELD \<or> rstate r = START_RECORD \<Longrightarrow> \<not> csv_special c
   \<Longrightarrow> int (length (rfield r)) < field_limit
   \<Longrightarrow> parse_process_char r (Some c) = Inr ((push_char r c)\<lparr>rstate := IN_FIELD\<rparr>)"
  by (auto simp: parse_process_char_def start_field_def add_then_def parse_add_char_def
      is_nl_def csv_special_def)










lemma line_ends_plain: "c \<noteq> CR \<Longrightarrow> c \<noteq> LF \<Longrightarrow> \<not> line_ends c cs"
  by (simp add: line_ends_def)

lemma scan_flag: "s \<noteq> [] \<Longrightarrow> scan r p s = scan r q s"
  by (cases s) simp_all

lemma scan_plain:
  assumes "rstate r = IN_FIELD" "\<not> list_ex csv_special f" "rest \<noteq> []"
    "int (length (rfield r)) + int (length f) \<le> field_limit"
  shows "scan r p (f @ rest) = scan (r\<lparr>rfield := rfield r @ f\<rparr>) True rest"
  using assms
proof (induction f arbitrary: r p)
  case Nil
  then show ?case using scan_flag[where s=rest and r=r and p=p and q=True] by simp
next
  case (Cons c f)
  from Cons.prems have c: "\<not> csv_special c" and f: "\<not> list_ex csv_special f" by auto
  from c have ne: "\<not> line_ends c (f @ rest)"
    by (simp add: line_ends_plain csv_special_def)
  have room: "int (length (rfield r)) < field_limit" using Cons.prems(4) by simp
  have st: "rstate (push_char r c) = IN_FIELD"
    using Cons.prems(1) by (simp add: push_char_def)
  have len: "int (length (rfield (push_char r c))) + int (length f) \<le> field_limit"
    using Cons.prems(4) by (simp add: push_char_def)
  have "scan r p ((c # f) @ rest) = scan (push_char r c) True (f @ rest)"
    using step_plain_in_field[OF Cons.prems(1) c room] ne by simp
  also have "\<dots> = scan ((push_char r c)\<lparr>rfield := rfield (push_char r c) @ f\<rparr>) True rest"
    by (rule Cons.IH[OF st f Cons.prems(3) len])
  also have "(push_char r c)\<lparr>rfield := rfield (push_char r c) @ f\<rparr>
               = r\<lparr>rfield := rfield r @ c # f\<rparr>"
    by (simp add: push_char_def)
  finally show ?case .
qed










section \<open>Exporting and reading back\<close>





lemma row_dict_text: "text_rows (map (row_dict cols) rs)"
  by (auto simp: text_rows_def list_all_iff row_dict_def split: option.splits)

lemma get_data_text_rows:
  assumes "get_data m spreadsheet = Inr (Data t cols rows)"
  shows "text_rows rows"
  using assms row_dict_text
  by (auto simp: get_data_def sql_select_all_def split: option.splits sum.splits)


text \<open>
  A field longer than the limit stops the reader: a row with one such field, written by
  the writer, cannot be read back.
\<close>

lemma csv_reader_long_field:
  assumes "\<not> list_ex csv_special f" "field_limit < int (length f)"
  shows "csv_reader (csv_writerow [f]) = Inl CsvError"
proof -
  let ?r0 = "\<lparr>rstate = START_RECORD, rfield = [], rfields = [], rrecords = []\<rparr>"
  define n where "n = nat field_limit"
  have n: "int n = field_limit" and pos: "0 < n" by (simp_all add: n_def field_limit_def)
  have nf: "n < length f" using assms(2) n by linarith
  define g where "g = take n f"
  define c where "c = f ! n"
  define h where "h = drop (Suc n) f"
  have f: "f = g @ c # h" using nf by (simp add: g_def c_def h_def id_take_nth_drop)
  have lg: "length g = n" using nf by (simp add: g_def)
  obtain a g' where g: "g = a # g'" using lg pos by (cases g) auto
  have ns: "\<not> csv_special a" "\<not> list_ex csv_special g'" "\<not> csv_special c"
    using assms(1) f g by (auto simp: list_ex_iff)
  have fld: "csv_field f = f" using assms(1) by (simp add: csv_field_def)
  have fne: "f \<noteq> []" using nf by auto
  have w0: "csv_writerow [f] = f @ [CR, LF]" using fne by (simp add: csv_writerow_def fld)
  have w: "csv_writerow [f] = a # g' @ c # h @ [CR, LF]"
    unfolding w0 using f g by simp
  define r1 where "r1 = (push_char ?r0 a)\<lparr>rstate := IN_FIELD\<rparr>"
  have st: "rstate r1 = IN_FIELD" by (simp add: r1_def)
  have room: "int (length (rfield ?r0)) < field_limit" using n pos by simp
  have len: "int (length (rfield r1)) + int (length g') \<le> field_limit"
    using lg g n by (simp add: r1_def push_char_def)
  have ne: "\<not> line_ends a cs" for cs
    using ns(1) by (simp add: line_ends_plain csv_special_def)
  have s1: "scan ?r0 False (a # g' @ c # h @ [CR, LF]) = scan r1 True (g' @ c # h @ [CR, LF])"
    using step_plain_start[where r="?r0" and c=a] ns(1) room ne by (simp add: r1_def)
  define r2 where "r2 = r1\<lparr>rfield := rfield r1 @ g'\<rparr>"
  have s2: "scan r1 True (g' @ c # h @ [CR, LF]) = scan r2 True (c # h @ [CR, LF])"
    unfolding r2_def by (rule scan_plain[OF st ns(2) _ len]) simp
  have full: "rstate r2 = IN_FIELD" "field_limit \<le> int (length (rfield r2))"
    using lg g n by (simp_all add: r2_def r1_def push_char_def)
  have s3: "scan r2 True (c # h @ [CR, LF]) = Inl CsvError"
    using step_plain_full[OF full(1) ns(3) full(2)] by simp
  have "scan ?r0 False (csv_writerow [f]) = Inl CsvError" by (simp only: w s1 s2 s3)
  then show ?thesis by (simp add: csv_reader_scan)
qed




section \<open>Every reachable store is well-formed\<close>

lemma sanitize_name_ident:
  assumes "sanitize_name x = Inr y"
  shows "ident y"
proof -
  define r where "r = re_sub (strip (lower x))"
  have rid: "\<forall>c \<in> set r. ident_char c"
    unfolding r_def strip_lower by (rule ident_re_sub_lower)
  from assms have "r \<noteq> [] \<and> (y = r \<or> y = CHR ''_'' # r)"
    unfolding sanitize_name_def r_def[symmetric] by (cases r) (auto simp: Let_def)
  with rid show ?thesis by (auto simp: ident_def list_all_iff ident_char_def)
qed

lemma sanitize_all_ident: "sanitize_all cs = Inr xs \<Longrightarrow> list_all ident xs"
  by (induction cs arbitrary: xs) (auto split: sum.splits dest: sanitize_name_ident)

lemma wf_iff:
  "wf m \<longleftrightarrow>
     distinct (map fst (meta m)) \<and> distinct (map fst (tables m))
     \<and> fst ` set (tables m) \<subseteq> fst ` set (meta m)
     \<and> (\<forall>n cs. (n, cs) \<in> set (meta m) \<longrightarrow>
           (\<exists>tb. map_of (tables m) n = Some tb \<and> wf_table tb \<and> cs = join '','' (tcols tb)))
     \<and> (\<forall>t. current_spreadsheet m = Some t \<longrightarrow> t \<noteq> [] \<and> spreadsheet_exists m t)"
proof -
  have a: "list_all (\<lambda>n. n \<in> set (map fst (meta m))) (map fst (tables m))
             \<longleftrightarrow> fst ` set (tables m) \<subseteq> fst ` set (meta m)"
    by (auto simp: list_all_iff)
  have b: "list_all (\<lambda>(n, cs). case map_of (tables m) n of
                               None \<Rightarrow> False
                             | Some tb \<Rightarrow> wf_table tb \<and> cs = join '','' (tcols tb)) (meta m)
             \<longleftrightarrow> (\<forall>n cs. (n, cs) \<in> set (meta m) \<longrightarrow>
                   (\<exists>tb. map_of (tables m) n = Some tb \<and> wf_table tb \<and> cs = join '','' (tcols tb)))"
    unfolding list_all_iff by (fastforce split: option.splits)
  have c: "(case current_spreadsheet m of None \<Rightarrow> True | Some t \<Rightarrow> t \<noteq> [] \<and> spreadsheet_exists m t)
             \<longleftrightarrow> (\<forall>t. current_spreadsheet m = Some t \<longrightarrow> t \<noteq> [] \<and> spreadsheet_exists m t)"
    by (cases "current_spreadsheet m") auto
  show ?thesis unfolding wf_def a b c by blast
qed

lemma wf_init: "wf init"
  by (simp add: wf_iff init_def)

lemma set_table_keys: "map fst (set_table t tb ts) = map fst ts"
  by (induction ts) (auto simp: set_table_def)

lemma map_of_set_table:
  "map_of (set_table t tb ts) n
     = (if n = t \<and> map_of ts t \<noteq> None then Some tb else map_of ts n)"
  by (induction ts) (auto simp: set_table_def)

lemma wf_set_table:
  assumes "wf m" "map_of (tables m) t = Some tb" "wf_table tb1" "tcols tb1 = tcols tb"
    and "meta m1 = meta m" "tables m1 = set_table t tb1 (tables m)"
    and "current_spreadsheet m1 = current_spreadsheet m"
  shows "wf m1"
proof -
  have keys: "map fst (tables m1) = map fst (tables m)"
    by (simp add: assms(6) set_table_keys)
  have reg: "\<exists>tb2. map_of (tables m1) n = Some tb2 \<and> wf_table tb2 \<and> cs = join '','' (tcols tb2)"
    if "(n, cs) \<in> set (meta m)" for n cs
  proof -
    from assms(1) that obtain tb0 where
      t0: "map_of (tables m) n = Some tb0" "wf_table tb0" "cs = join '','' (tcols tb0)"
      unfolding wf_iff by blast
    show ?thesis
    proof (cases "n = t")
      case True
      with t0 assms(2,3,4) show ?thesis by (simp add: assms(6) map_of_set_table)
    next
      case False
      with t0 show ?thesis by (simp add: assms(6) map_of_set_table)
    qed
  qed
  from assms(1) have old:
    "distinct (map fst (meta m))" "distinct (map fst (tables m))"
    "fst ` set (tables m) \<subseteq> fst ` set (meta m)"
    "\<forall>t. current_spreadsheet m = Some t \<longrightarrow> t \<noteq> [] \<and> spreadsheet_exists m t"
    unfolding wf_iff by blast+
  have img: "fst ` set (tables m1) = fst ` set (tables m)"
    using keys by (metis set_map)
  have d1: "distinct (map fst (meta m1))" using old(1) by (simp add: assms(5))
  have d2: "distinct (map fst (tables m1))" using old(2) by (simp add: keys)
  have d3: "fst ` set (tables m1) \<subseteq> fst ` set (meta m1)" using old(3) by (simp add: img assms(5))
  have d4: "\<forall>n cs. (n, cs) \<in> set (meta m1) \<longrightarrow>
           (\<exists>tb. map_of (tables m1) n = Some tb \<and> wf_table tb \<and> cs = join '','' (tcols tb))"
    using reg by (simp add: assms(5))
  have d5: "\<forall>t. current_spreadsheet m1 = Some t \<longrightarrow> t \<noteq> [] \<and> spreadsheet_exists m1 t"
    using old(4) by (simp add: assms(5,7) spreadsheet_exists_def)
  show ?thesis unfolding wf_iff using d1 d2 d3 d4 d5 by blast
qed

lemma max_rowid_ge_aux: "a \<le> fold (\<lambda>r acc. max (fst r) acc) rows (a::int)"
proof (induction rows arbitrary: a)
  case Nil
  then show ?case by simp
next
  case (Cons r rows)
  have "a \<le> max (fst r) a" by simp
  also have "\<dots> \<le> fold (\<lambda>r acc. max (fst r) acc) rows (max (fst r) a)" by (rule Cons.IH)
  finally show ?case by simp
qed

lemma max_rowid_ge_mem:
  "i \<in> fst ` set rows \<Longrightarrow> i \<le> fold (\<lambda>r acc. max (fst r) acc) rows (a::int)"
proof (induction rows arbitrary: a)
  case Nil
  then show ?case by simp
next
  case (Cons r rows)
  show ?case
  proof (cases "i = fst r")
    case True
    have "i \<le> max (fst r) a" using True by simp
    also have "\<dots> \<le> fold (\<lambda>r acc. max (fst r) acc) rows (max (fst r) a)"
      by (rule max_rowid_ge_aux)
    finally show ?thesis by simp
  next
    case False
    with Cons.prems have "i \<in> fst ` set rows" by auto
    from Cons.IH[OF this] show ?thesis by simp
  qed
qed

lemma max_rowid_ge: "i \<in> fst ` set rows \<Longrightarrow> i \<le> max_rowid rows"
  unfolding max_rowid_def by (rule max_rowid_ge_mem)

lemma wf_table_of:
  assumes "wf m" "map_of (tables m) t = Some tb"
  shows "wf_table tb"
proof -
  from assms(2) have "(t, tb) \<in> set (tables m)" by (rule map_of_SomeD)
  then have "fst (t, tb) \<in> fst ` set (tables m)" by (rule imageI)
  then have "t \<in> fst ` set (tables m)" by simp
  moreover from assms(1) have "fst ` set (tables m) \<subseteq> fst ` set (meta m)"
    unfolding wf_iff by blast
  ultimately have "t \<in> fst ` set (meta m)" by blast
  then obtain cs where cs: "(t, cs) \<in> set (meta m)" by auto
  from assms(1) have "\<forall>n cs. (n, cs) \<in> set (meta m) \<longrightarrow>
           (\<exists>tb. map_of (tables m) n = Some tb \<and> wf_table tb \<and> cs = join '','' (tcols tb))"
    unfolding wf_iff by blast
  with cs obtain tb0 where "map_of (tables m) t = Some tb0" "wf_table tb0" by blast
  with assms(2) show ?thesis by simp
qed

lemma sql_insert_wf:
  assumes "wf m" "sql_insert m t vals = Inr (m1, rid)"
  shows "wf m1"
proof -
  from assms(2) obtain tb where tb: "map_of (tables m) t = Some tb"
    by (cases "map_of (tables m) t") (simp_all add: sql_insert_def)
  define hi where "hi = max (seq_of m t) (max_rowid (trows tb))"
  define tb1 where "tb1 = tb\<lparr>trows := trows tb @ [(hi + 1, map (\<lambda>c. map_of vals c) (tcols tb))]\<rparr>"
  have "m1 = m\<lparr>tables := set_table t tb1 (tables m),
                 sqlite_sequence := dict_set t (hi + 1) (sqlite_sequence m)\<rparr>"
    using assms(2) tb unfolding sql_insert_def Let_def hi_def tb1_def
    by (simp split: if_splits) blast
  then have m1: "meta m1 = meta m" "tables m1 = set_table t tb1 (tables m)"
      "current_spreadsheet m1 = current_spreadsheet m"
    by simp_all
  have w: "wf_table tb" by (rule wf_table_of[OF assms(1) tb])
  have fresh: "hi + 1 \<notin> fst ` set (trows tb)"
  proof
    assume "hi + 1 \<in> fst ` set (trows tb)"
    then have "hi + 1 \<le> max_rowid (trows tb)" by (rule max_rowid_ge)
    then show False by (simp add: hi_def)
  qed
  have w1: "wf_table tb1"
    using w fresh by (simp add: wf_table_def tb1_def)
  have c1: "tcols tb1 = tcols tb" by (simp add: tb1_def)
  show ?thesis by (rule wf_set_table[OF assms(1) tb w1 c1 m1])
qed

lemma length_set_cell: "length cells = length cols \<Longrightarrow> length (set_cell cols c v cells) = length cols"
  by (simp add: set_cell_def)

lemma sql_update_wf:
  assumes "wf m" "sql_update m t c v rid = Inr (m1, n)"
  shows "wf m1"
proof -
  from assms(2) obtain tb where tb: "map_of (tables m) t = Some tb"
    by (auto simp: sql_update_def split: option.splits)
  define rows where "rows = map (\<lambda>(i, cells). if i = rid then (i, set_cell (tcols tb) c v cells)
                                          else (i, cells)) (trows tb)"
  define tb1 where "tb1 = tb\<lparr>trows := rows\<rparr>"
  from assms(2) tb have m1: "meta m1 = meta m" "tables m1 = set_table t tb1 (tables m)"
      "current_spreadsheet m1 = current_spreadsheet m"
    by (auto simp: sql_update_def Let_def rows_def tb1_def split: if_splits)
  have w: "wf_table tb" by (rule wf_table_of[OF assms(1) tb])
  have ids: "map fst rows = map fst (trows tb)"
    by (auto simp: rows_def)
  have len: "list_all (\<lambda>r. length (snd r) = length (tcols tb)) rows"
    using w by (auto simp: rows_def wf_table_def list_all_iff length_set_cell)
  have w1: "wf_table tb1"
    using w ids len by (simp add: wf_table_def tb1_def)
  have c1: "tcols tb1 = tcols tb" by (simp add: tb1_def)
  show ?thesis by (rule wf_set_table[OF assms(1) tb w1 c1 m1])
qed

lemma sql_delete_wf:
  assumes "wf m" "sql_delete m t rid = Inr (m1, n)"
  shows "wf m1"
proof -
  define k where "k = resolve_table (tables m) t"
  from assms(2) obtain tb where tb: "map_of (tables m) k = Some tb"
    by (auto simp: sql_delete_def k_def Let_def split: option.splits if_splits)
  define tb1 where "tb1 = tb\<lparr>trows := filter (\<lambda>r. fst r \<noteq> rid) (trows tb)\<rparr>"
  from assms(2) tb have m1: "meta m1 = meta m" "tables m1 = set_table k tb1 (tables m)"
      "current_spreadsheet m1 = current_spreadsheet m"
    by (auto simp: sql_delete_def tb1_def k_def[symmetric] Let_def split: if_splits)
  have w: "wf_table tb" by (rule wf_table_of[OF assms(1) tb])
  have w1: "wf_table tb1"
    using w by (auto simp: wf_table_def tb1_def list_all_iff distinct_map_filter)
  have c1: "tcols tb1 = tcols tb" by (simp add: tb1_def)
  show ?thesis by (rule wf_set_table[OF assms(1) tb w1 c1 m1])
qed

lemma add_row_wf:
  assumes "wf m" "add_row m d sp = Inr (m1, out)"
  shows "wf m1"
  using assms sql_insert_wf
  by (auto simp: add_row_def split: option.splits sum.splits if_splits)

lemma add_column_wf:
  assumes "wf m" "add_column m c d sp = Inr (m1, out)"
  shows "wf m1"
  using assms
  by (auto simp: add_column_def sql_alter_add_column_default_param_def Let_def
      split: option.splits sum.splits if_splits)

lemma edit_cell_wf:
  assumes "wf m" "edit_cell m i c v sp = Inr (m1, out)"
  shows "wf m1"
  using assms sql_update_wf
  by (auto simp: edit_cell_def split: option.splits sum.splits if_splits)

lemma delete_row_wf:
  assumes "wf m" "delete_row m i sp = Inr (m1, out)"
  shows "wf m1"
  using assms sql_delete_wf
  by (auto simp: delete_row_def split: option.splits sum.splits if_splits)

lemma switch_spreadsheet_wf:
  assumes "wf m" "switch_spreadsheet m n = Inr (m1, out)"
  shows "wf m1"
proof -
  from assms(2) consider "m1 = m"
    | t where "sanitize_name n = Inr t" "spreadsheet_exists m t"
        "m1 = m\<lparr>current_spreadsheet := Some t\<rparr>"
    by (auto simp: switch_spreadsheet_def split: sum.splits if_splits)
  then show ?thesis
  proof cases
    case 1
    with assms(1) show ?thesis by simp
  next
    case 2
    from sanitize_name_ident[OF 2(1)] have "t \<noteq> []" by (auto simp: ident_def)
    with assms(1) 2 show ?thesis by (simp add: wf_def spreadsheet_exists_def)
  qed
qed

lemma map_of_append_left:
  "map_of xs n = Some v \<Longrightarrow> map_of (xs @ ys) n = Some v"
  by (simp add: map_add_Some_iff)

lemma map_of_append_right:
  "map_of xs n = None \<Longrightarrow> map_of (xs @ ys) n = map_of ys n"
  by (simp add: map_add_def)

lemma sql_create_table_Inr:
  assumes "sql_create_table m t cols = Inr m1"
  shows "map_of (tables m) t = None \<and> cols \<noteq> [] \<and> distinct (''id'' # cols)
         \<and> t \<noteq> ''_spreadsheet_meta''
         \<and> m1 = m\<lparr>tables := tables m @ [(t, \<lparr>tcols = cols, trows = []\<rparr>)]\<rparr>"
proof -
  have a: "take 7 t \<noteq> ''sqlite_''"
    using assms unfolding sql_create_table_def by (cases "take 7 t = ''sqlite_''") simp_all
  have b: "\<not> (t = ''_spreadsheet_meta'' \<or> map_of (tables m) t \<noteq> None)"
    using assms a unfolding sql_create_table_def
    by (cases "t = ''_spreadsheet_meta'' \<or> map_of (tables m) t \<noteq> None") simp_all
  have c: "cols \<noteq> []"
    using assms a b unfolding sql_create_table_def by (cases "cols = []") simp_all
  have d: "distinct (''id'' # cols)"
    using assms a b c unfolding sql_create_table_def
    by (cases "distinct (''id'' # cols)") simp_all
  have e: "m1 = m\<lparr>tables := tables m @ [(t, \<lparr>tcols = cols, trows = []\<rparr>)]\<rparr>"
    using assms a b c d unfolding sql_create_table_def by simp
  from b c d e show ?thesis by blast
qed

lemma create_spreadsheet_cases:
  assumes "create_spreadsheet m name cols = Inr (m1, out)"
  shows "m1 = m \<or>
         (\<exists>t scs. sanitize_name name = Inr t \<and> sanitize_all cols = Inr scs
            \<and> map_of (meta m) t = None \<and> map_of (tables m) t = None
            \<and> scs \<noteq> [] \<and> distinct (''id'' # scs)
            \<and> m1 = m\<lparr>tables := tables m @ [(t, \<lparr>tcols = scs, trows = []\<rparr>)],
                      meta := meta m @ [(t, join '','' scs)],
                      current_spreadsheet := Some t\<rparr>)"
proof (cases "sanitize_name name")
  case (Inl e)
  with assms show ?thesis by (simp add: create_spreadsheet_def)
next
  case (Inr t)
  show ?thesis
  proof (cases "spreadsheet_exists m t")
    case True
    with assms Inr show ?thesis by (simp add: create_spreadsheet_def)
  next
    case False
    then have nm: "map_of (meta m) t = None" by (simp add: spreadsheet_exists_def)
    show ?thesis
    proof (cases "sanitize_all cols")
      case (Inl e)
      with assms Inr False show ?thesis by (simp add: create_spreadsheet_def)
    next
      case scs: (Inr scs)
      show ?thesis
      proof (cases "sql_create_table m t scs")
        case (Inl e)
        with assms Inr False scs show ?thesis by (simp add: create_spreadsheet_def)
      next
        case ma: (Inr ma)
        from sql_create_table_Inr[OF ma] have
          c: "map_of (tables m) t = None" "scs \<noteq> []" "distinct (''id'' # scs)"
            "ma = m\<lparr>tables := tables m @ [(t, \<lparr>tcols = scs, trows = []\<rparr>)]\<rparr>"
          by blast+
        have ri: "registry_insert ma t (join '','' scs)
                    = Inr (ma\<lparr>meta := meta ma @ [(t, join '','' scs)]\<rparr>)"
          using nm c(4) by (simp add: registry_insert_def)
        have "m1 = (ma\<lparr>meta := meta ma @ [(t, join '','' scs)]\<rparr>)\<lparr>current_spreadsheet := Some t\<rparr>"
          using assms Inr False scs ma ri by (simp add: create_spreadsheet_def)
        then have "m1 = m\<lparr>tables := tables m @ [(t, \<lparr>tcols = scs, trows = []\<rparr>)],
                      meta := meta m @ [(t, join '','' scs)],
                      current_spreadsheet := Some t\<rparr>"
          by (simp add: c(4))
        with Inr scs nm c show ?thesis by blast
      qed
    qed
  qed
qed

lemma create_spreadsheet_wf:
  assumes "wf m" "create_spreadsheet m name cols = Inr (m1, out)"
  shows "wf m1"
proof -
  from create_spreadsheet_cases[OF assms(2)]
  consider "m1 = m"
    | t scs where "sanitize_name name = Inr t" "sanitize_all cols = Inr scs"
        "map_of (meta m) t = None" "map_of (tables m) t = None"
        "scs \<noteq> []" "distinct (''id'' # scs)"
        "m1 = m\<lparr>tables := tables m @ [(t, \<lparr>tcols = scs, trows = []\<rparr>)],
                 meta := meta m @ [(t, join '','' scs)],
                 current_spreadsheet := Some t\<rparr>"
    by blast
  then show ?thesis
  proof cases
    case 1
    with assms(1) show ?thesis by simp
  next
    case 2
    define tb :: table where "tb = \<lparr>tcols = scs, trows = []\<rparr>"
    from assms(1) have old:
      "distinct (map fst (meta m))" "distinct (map fst (tables m))"
      "fst ` set (tables m) \<subseteq> fst ` set (meta m)"
      "\<forall>n cs. (n, cs) \<in> set (meta m) \<longrightarrow>
           (\<exists>tb. map_of (tables m) n = Some tb \<and> wf_table tb \<and> cs = join '','' (tcols tb))"
      unfolding wf_iff by blast+
    have m1: "meta m1 = meta m @ [(t, join '','' scs)]" "tables m1 = tables m @ [(t, tb)]"
      "current_spreadsheet m1 = Some t"
      by (simp_all add: 2(7) tb_def)
    have nm: "t \<notin> fst ` set (meta m)" using 2(3) by (simp add: map_of_eq_None_iff)
    have nt: "t \<notin> fst ` set (tables m)" using 2(4) by (simp add: map_of_eq_None_iff)
    have tne: "t \<noteq> []" using sanitize_name_ident[OF 2(1)] by (auto simp: ident_def)
    have wtb: "wf_table tb"
      using 2(5,6) sanitize_all_ident[OF 2(2)] by (simp add: wf_table_def tb_def)
    have d1: "distinct (map fst (meta m1))" using old(1) nm by (simp add: m1)
    have d2: "distinct (map fst (tables m1))" using old(2) nt by (simp add: m1)
    have d3: "fst ` set (tables m1) \<subseteq> fst ` set (meta m1)" using old(3) by (auto simp: m1)
    have d4: "\<forall>n cs. (n, cs) \<in> set (meta m1) \<longrightarrow>
           (\<exists>tb. map_of (tables m1) n = Some tb \<and> wf_table tb \<and> cs = join '','' (tcols tb))"
    proof (intro allI impI)
      fix n cs assume "(n, cs) \<in> set (meta m1)"
      then consider "(n, cs) \<in> set (meta m)" | "n = t" "cs = join '','' scs" by (auto simp: m1)
      then show "\<exists>tb. map_of (tables m1) n = Some tb \<and> wf_table tb \<and> cs = join '','' (tcols tb)"
      proof cases
        case 1
        with old(4) obtain tb0 where
          "map_of (tables m) n = Some tb0" "wf_table tb0" "cs = join '','' (tcols tb0)" by blast
        then show ?thesis using map_of_append_left[of "tables m" n tb0 "[(t, tb)]"]
          by (simp add: m1)
      next
        case 2
        have "map_of (tables m1) t = Some tb"
          using map_of_append_right[OF \<open>map_of (tables m) t = None\<close>, of "[(t, tb)]"]
          by (simp add: m1)
        with 2 wtb show ?thesis by (simp add: tb_def)
      qed
    qed
    have "map_of (meta m1) t = Some (join '','' scs)"
      using map_of_append_right[OF 2(3), of "[(t, join '','' scs)]"] by (simp add: m1)
    then have d5: "\<forall>x. current_spreadsheet m1 = Some x \<longrightarrow> x \<noteq> [] \<and> spreadsheet_exists m1 x"
      using tne by (simp add: m1 spreadsheet_exists_def)
    show ?thesis unfolding wf_iff using d1 d2 d3 d4 d5 by blast
  qed
qed

lemma delete_spreadsheet_cases:
  assumes "delete_spreadsheet m name = Inr (m1, out)"
  shows "m1 = m \<or>
         (\<exists>t. meta m1 = filter (\<lambda>p. fst p \<noteq> t) (meta m)
             \<and> tables m1 = filter (\<lambda>p. fst p \<noteq> t) (tables m)
             \<and> current_spreadsheet m1
                 = (if current_spreadsheet m = Some t then None else current_spreadsheet m))"
proof (cases "sanitize_name name")
  case (Inl e)
  with assms show ?thesis by (simp add: delete_spreadsheet_def)
next
  case (Inr t)
  show ?thesis
  proof (cases "spreadsheet_exists m t")
    case False
    with assms Inr show ?thesis by (simp add: delete_spreadsheet_def)
  next
    case True
    define m0 where "m0 = registry_delete (sql_drop_table_if_exists m t) t"
    have m0: "meta m0 = filter (\<lambda>p. fst p \<noteq> t) (meta m)"
      "tables m0 = filter (\<lambda>p. fst p \<noteq> t) (tables m)"
      "current_spreadsheet m0 = current_spreadsheet m"
      by (simp_all add: m0_def registry_delete_def sql_drop_table_if_exists_def)
    have "m1 = (if current_spreadsheet m0 = Some t then m0\<lparr>current_spreadsheet := None\<rparr> else m0)"
      using assms Inr True by (auto simp: delete_spreadsheet_def Let_def m0_def)
    then have "meta m1 = filter (\<lambda>p. fst p \<noteq> t) (meta m)
             \<and> tables m1 = filter (\<lambda>p. fst p \<noteq> t) (tables m)
             \<and> current_spreadsheet m1
                 = (if current_spreadsheet m = Some t then None else current_spreadsheet m)"
      using m0 by simp
    then show ?thesis by blast
  qed
qed

lemma delete_spreadsheet_wf:
  assumes "wf m" "delete_spreadsheet m name = Inr (m1, out)"
  shows "wf m1"
proof -
  from delete_spreadsheet_cases[OF assms(2)]
  consider "m1 = m"
    | t where "meta m1 = filter (\<lambda>p. fst p \<noteq> t) (meta m)"
        "tables m1 = filter (\<lambda>p. fst p \<noteq> t) (tables m)"
        "current_spreadsheet m1
           = (if current_spreadsheet m = Some t then None else current_spreadsheet m)"
    by blast
  then show ?thesis
  proof cases
    case 1
    with assms(1) show ?thesis by simp
  next
    case 2
    from assms(1) have old:
      "distinct (map fst (meta m))" "distinct (map fst (tables m))"
      "fst ` set (tables m) \<subseteq> fst ` set (meta m)"
      "\<forall>n cs. (n, cs) \<in> set (meta m) \<longrightarrow>
           (\<exists>tb. map_of (tables m) n = Some tb \<and> wf_table tb \<and> cs = join '','' (tcols tb))"
      "\<forall>t. current_spreadsheet m = Some t \<longrightarrow> t \<noteq> [] \<and> spreadsheet_exists m t"
      unfolding wf_iff by blast+
    have d1: "distinct (map fst (meta m1))" using old(1) by (simp add: 2 distinct_map_filter)
    have d2: "distinct (map fst (tables m1))" using old(2) by (simp add: 2 distinct_map_filter)
    have d3: "fst ` set (tables m1) \<subseteq> fst ` set (meta m1)" using old(3) by (auto simp: 2)
    have d4: "\<forall>n cs. (n, cs) \<in> set (meta m1) \<longrightarrow>
           (\<exists>tb. map_of (tables m1) n = Some tb \<and> wf_table tb \<and> cs = join '','' (tcols tb))"
    proof (intro allI impI)
      fix n cs assume "(n, cs) \<in> set (meta m1)"
      then have a: "(n, cs) \<in> set (meta m)" "n \<noteq> t" by (auto simp: 2)
      with old(4) obtain tb0 where
        "map_of (tables m) n = Some tb0" "wf_table tb0" "cs = join '','' (tcols tb0)" by blast
      with a(2) show "\<exists>tb. map_of (tables m1) n = Some tb \<and> wf_table tb \<and> cs = join '','' (tcols tb)"
        by (simp add: 2 map_of_filter_fst)
    qed
    have d5: "\<forall>x. current_spreadsheet m1 = Some x \<longrightarrow> x \<noteq> [] \<and> spreadsheet_exists m1 x"
    proof (intro allI impI)
      fix x assume "current_spreadsheet m1 = Some x"
      then have c: "current_spreadsheet m = Some x" "x \<noteq> t" by (auto simp: 2 split: if_splits)
      with old(5) have "x \<noteq> []" "map_of (meta m) x \<noteq> None" by (auto simp: spreadsheet_exists_def)
      with c(2) show "x \<noteq> [] \<and> spreadsheet_exists m1 x"
        by (simp add: spreadsheet_exists_def 2 map_of_filter_fst)
    qed
    show ?thesis unfolding wf_iff using d1 d2 d3 d4 d5 by blast
  qed
qed

lemma temp_name_differs: "''_temp_'' @ t \<noteq> t"
proof
  assume "''_temp_'' @ t = t"
  then have "length (''_temp_'' @ t) = length t" by simp
  then show False by simp
qed

lemma sql_insert_select_Inr:
  assumes "sql_insert_select m dst cols src = Inr m1"
  shows "\<exists>d s. map_of (tables m) dst = Some d \<and> map_of (tables m) src = Some s
           \<and> meta m1 = meta m \<and> current_spreadsheet m1 = current_spreadsheet m
           \<and> tables m1
               = set_table dst
                   (d\<lparr>trows := trows d @ map (\<lambda>(i, cells).
                                   (i, project cols (tcols d) (project (tcols s) cols cells)))
                                 (trows s)\<rparr>)
                   (tables m)"
proof (cases "map_of (tables m) dst")
  case None
  with assms show ?thesis by (simp add: sql_insert_select_def)
next
  case d: (Some d)
  show ?thesis
  proof (cases "map_of (tables m) src")
    case None
    with assms d show ?thesis by (simp add: sql_insert_select_def)
  next
    case s: (Some s)
    define copied where
      "copied = map (\<lambda>(i, cells). (i, project cols (tcols d) (project (tcols s) cols cells))) (trows s)"
    have "m1 = m\<lparr>tables := set_table dst (d\<lparr>trows := trows d @ copied\<rparr>) (tables m),
                   sqlite_sequence := dict_set dst (max (seq_of m dst) (max_rowid copied))
                                        (sqlite_sequence m)\<rparr>"
      using assms d s unfolding sql_insert_select_def Let_def copied_def
      by (simp split: if_splits)
    then have "meta m1 = meta m \<and> current_spreadsheet m1 = current_spreadsheet m
               \<and> tables m1 = set_table dst (d\<lparr>trows := trows d @ copied\<rparr>) (tables m)"
      by simp
    with d s show ?thesis unfolding copied_def by blast
  qed
qed

lemma sql_drop_table_Inr:
  assumes "sql_drop_table m t = Inr m1"
  shows "meta m1 = meta m \<and> current_spreadsheet m1 = current_spreadsheet m
         \<and> tables m1 = filter (\<lambda>p. fst p \<noteq> t) (tables m)"
  using assms by (cases "map_of (tables m) t = None") (auto simp: sql_drop_table_def)

lemma sql_rename_table_Inr:
  assumes "sql_rename_table m old new = Inr m1"
  shows "meta m1 = meta m \<and> current_spreadsheet m1 = current_spreadsheet m
         \<and> tables m1 = map (\<lambda>(n, x). if n = old then (new, x) else (n, x)) (tables m)"
proof -
  have a: "map_of (tables m) old \<noteq> None"
    using assms unfolding sql_rename_table_def by (cases "map_of (tables m) old = None") simp_all
  have b: "take 7 new \<noteq> ''sqlite_''"
    using assms a unfolding sql_rename_table_def by (cases "take 7 new = ''sqlite_''") simp_all
  have c: "\<not> (new = ''_spreadsheet_meta'' \<or> map_of (tables m) new \<noteq> None)"
    using assms a b unfolding sql_rename_table_def
    by (cases "new = ''_spreadsheet_meta'' \<or> map_of (tables m) new \<noteq> None") simp_all
  have "m1 = m\<lparr>tables := map (\<lambda>(n, x). if n = old then (new, x) else (n, x)) (tables m),
                 sqlite_sequence :=
                   map (\<lambda>(n, x). if n = old then (new, x) else (n, x)) (sqlite_sequence m)\<rparr>"
    using assms a b c unfolding sql_rename_table_def by simp
  then show ?thesis by simp
qed

lemma delete_column_cases:
  assumes "delete_column m cn sp = Inr (m1, out)"
  shows "m1 = m \<or>
         (\<exists>t c ma mb mc md.
            target m sp = Some t \<and> sanitize_name cn = Inr c
          \<and> c \<in> set (get_columns m (Some t))
          \<and> sql_create_table m (''_temp_'' @ t) (remove1 c (get_columns m (Some t))) = Inr ma
          \<and> sql_insert_select ma (''_temp_'' @ t) (remove1 c (get_columns m (Some t))) t = Inr mb
          \<and> sql_drop_table mb t = Inr mc
          \<and> sql_rename_table mc (''_temp_'' @ t) t = Inr md
          \<and> m1 = registry_update md t (join '','' (remove1 c (get_columns m (Some t)))))"
proof (cases "target m sp")
  case None
  with assms show ?thesis by (simp add: delete_column_def)
next
  case t: (Some t)
  show ?thesis
  proof (cases "sanitize_name cn")
    case (Inl e)
    with assms t show ?thesis by (simp add: delete_column_def)
  next
    case c: (Inr c)
    show ?thesis
    proof (cases "c \<in> set (get_columns m (Some t))")
      case False
      with assms t c show ?thesis by (simp add: delete_column_def)
    next
      case True
      let ?cols = "remove1 c (get_columns m (Some t))"
      let ?temp = "''_temp_'' @ t"
      show ?thesis
      proof (cases "sql_create_table m ?temp ?cols")
        case (Inl e)
        with assms t c True show ?thesis by (simp add: delete_column_def Let_def)
      next
        case ma: (Inr ma)
        show ?thesis
        proof (cases "sql_insert_select ma ?temp ?cols t")
          case (Inl e)
          with assms t c True ma show ?thesis by (simp add: delete_column_def Let_def)
        next
          case mb: (Inr mb)
          show ?thesis
          proof (cases "sql_drop_table mb t")
            case (Inl e)
            with assms t c True ma mb show ?thesis by (simp add: delete_column_def Let_def)
          next
            case mc: (Inr mc)
            show ?thesis
            proof (cases "sql_rename_table mc ?temp t")
              case (Inl e)
              with assms t c True ma mb mc show ?thesis by (simp add: delete_column_def Let_def)
            next
              case md: (Inr md)
              have "m1 = registry_update md t (join '','' ?cols)"
                using assms t c True ma mb mc md by (simp add: delete_column_def Let_def)
              with t c True ma mb mc md show ?thesis by blast
            qed
          qed
        qed
      qed
    qed
  qed
qed

lemma set_table_append:
  "set_table t x (a @ b) = set_table t x a @ set_table t x b"
  by (simp add: set_table_def)

lemma rename_absent:
  "old \<notin> fst ` set ts \<Longrightarrow> map (\<lambda>(n, x). if n = old then (new, x) else (n, x)) ts = ts"
  by (induction ts) auto

lemma rebuild_tables:
  assumes "map_of (tables m) t = Some tb"
    and "sql_create_table m (''_temp_'' @ t) cols = Inr ma"
    and "sql_insert_select ma (''_temp_'' @ t) cols t = Inr mb"
    and "sql_drop_table mb t = Inr mc"
    and "sql_rename_table mc (''_temp_'' @ t) t = Inr md"
  shows "tables md = filter (\<lambda>p. fst p \<noteq> t) (tables m)
                      @ [(t, \<lparr>tcols = cols,
                               trows = map (\<lambda>(i, cells).
                                              (i, project cols cols (project (tcols tb) cols cells)))
                                           (trows tb)\<rparr>)]"
    and "meta md = meta m" and "current_spreadsheet md = current_spreadsheet m"
    and "cols \<noteq> []" and "distinct (''id'' # cols)"
proof -
  let ?temp = "''_temp_'' @ t"
  define d :: table where "d = \<lparr>tcols = cols, trows = []\<rparr>"
  define d1 :: table where
    "d1 = \<lparr>tcols = cols,
           trows = map (\<lambda>(i, cells). (i, project cols cols (project (tcols tb) cols cells)))
                       (trows tb)\<rparr>"
  from sql_create_table_Inr[OF assms(2)] have
    nt: "map_of (tables m) ?temp = None" and ne: "cols \<noteq> []" and di: "distinct (''id'' # cols)"
    and ma: "ma = m\<lparr>tables := tables m @ [(?temp, d)]\<rparr>"
    unfolding d_def by blast+
  have absent: "?temp \<notin> fst ` set (tables m)" using nt by (simp add: map_of_eq_None_iff)
  have ta: "tables ma = tables m @ [(?temp, d)]" by (simp add: ma)
  have la: "map_of (tables ma) ?temp = Some d"
    using map_of_append_right[OF nt, of "[(?temp, d)]"] by (simp add: ta)
  have lt: "map_of (tables ma) t = Some tb"
    using map_of_append_left[OF assms(1), of "[(?temp, d)]"] by (simp add: ta)
  from sql_insert_select_Inr[OF assms(3)] la lt
  have mb: "meta mb = meta ma" "current_spreadsheet mb = current_spreadsheet ma"
    "tables mb = set_table ?temp d1 (tables ma)"
    by (auto simp: d_def d1_def)
  have tb2: "tables mb = tables m @ [(?temp, d1)]"
    using set_table_absent[OF absent, of d1]
    by (simp add: mb(3) ta set_table_append) (simp add: set_table_def)
  from sql_drop_table_Inr[OF assms(4)]
  have mc: "meta mc = meta mb" "current_spreadsheet mc = current_spreadsheet mb"
    "tables mc = filter (\<lambda>p. fst p \<noteq> t) (tables mb)" by blast+
  have tc: "tables mc = filter (\<lambda>p. fst p \<noteq> t) (tables m) @ [(?temp, d1)]"
    using temp_name_differs[of t] by (simp add: mc(3) tb2)
  from sql_rename_table_Inr[OF assms(5)]
  have md: "meta md = meta mc" "current_spreadsheet md = current_spreadsheet mc"
    "tables md = map (\<lambda>(n, x). if n = ?temp then (t, x) else (n, x)) (tables mc)" by blast+
  have absent2: "?temp \<notin> fst ` set (filter (\<lambda>p. fst p \<noteq> t) (tables m))"
    using absent by auto
  show "tables md = filter (\<lambda>p. fst p \<noteq> t) (tables m)
                      @ [(t, \<lparr>tcols = cols,
                               trows = map (\<lambda>(i, cells).
                                              (i, project cols cols (project (tcols tb) cols cells)))
                                           (trows tb)\<rparr>)]"
    using rename_absent[OF absent2, of t] by (simp add: md(3) tc d1_def)
  show "meta md = meta m" by (simp add: md mc mb ma)
  show "current_spreadsheet md = current_spreadsheet m" by (simp add: md mc mb ma)
  show "cols \<noteq> []" by (rule ne)
  show "distinct (''id'' # cols)" by (rule di)
qed

lemma registry_update_keys:
  "map fst (map (\<lambda>(k, x). if k = t then (k, j) else (k, x)) xs) = map fst xs"
  by (induction xs) auto

lemma registry_update_mem:
  assumes "(n, cs) \<in> set (map (\<lambda>(k, x). if k = t then (k, j) else (k, x)) xs)"
  shows "(n = t \<and> cs = j) \<or> (n \<noteq> t \<and> (n, cs) \<in> set xs)"
  using assms by (induction xs) (auto split: if_splits)

lemma length_project: "length (project src cols cells) = length cols"
  by (simp add: project_def)

lemma rebuilt_rows_ids:
  "map fst (map (\<lambda>(i, cells). (i, f cells)) rows) = map fst rows"
  by (induction rows) auto

lemma rebuilt_rows_ids_comp:
  "map (fst \<circ> (\<lambda>(i, cells). (i, f cells))) rows = map fst rows"
  by (induction rows) auto

lemma delete_column_wf:
  assumes "wf m" "delete_column m cn sp = Inr (m1, out)"
  shows "wf m1"
proof -
  from delete_column_cases[OF assms(2)]
  consider "m1 = m"
    | t c ma mb mc md where
        "target m sp = Some t" "sanitize_name cn = Inr c"
        "c \<in> set (get_columns m (Some t))"
        "sql_create_table m (''_temp_'' @ t) (remove1 c (get_columns m (Some t))) = Inr ma"
        "sql_insert_select ma (''_temp_'' @ t) (remove1 c (get_columns m (Some t))) t = Inr mb"
        "sql_drop_table mb t = Inr mc"
        "sql_rename_table mc (''_temp_'' @ t) t = Inr md"
        "m1 = registry_update md t (join '','' (remove1 c (get_columns m (Some t))))"
    by blast
  then show ?thesis
  proof cases
    case 1
    with assms(1) show ?thesis by simp
  next
    case 2
    have tne: "t \<noteq> []" using 2(1) by (rule target_nonempty)
    have reg: "spreadsheet_exists m t"
      using 2(3) get_columns_unregistered[OF tne] by fastforce
    from wf_table_exists[OF assms(1) reg] obtain tb where tb: "map_of (tables m) t = Some tb" ..
    have gc: "get_columns m (Some t) = tcols tb" and wtb: "wf_table tb"
      by (rule get_columns_wf[OF assms(1) tne tb reg])+
    define cols where "cols = remove1 c (tcols tb)"
    define d1 :: table where
      "d1 = \<lparr>tcols = cols,
             trows = map (\<lambda>(i, cells). (i, project cols cols (project (tcols tb) cols cells)))
                         (trows tb)\<rparr>"
    define j where "j = join '','' cols"
    note rb = rebuild_tables[OF tb 2(4,5,6,7)[unfolded gc cols_def[symmetric]]]
    have t1: "tables m1 = filter (\<lambda>p. fst p \<noteq> t) (tables m) @ [(t, d1)]"
      using rb(1) by (simp add: 2(8) registry_update_def d1_def)
    have r1: "meta m1 = map (\<lambda>(k, x). if k = t then (k, j) else (k, x)) (meta m)"
      unfolding j_def cols_def using rb(2) by (simp add: 2(8) registry_update_def gc)
    have c1: "current_spreadsheet m1 = current_spreadsheet m"
      using rb(3) by (simp add: 2(8) registry_update_def)
    from assms(1) have old:
      "distinct (map fst (meta m))" "distinct (map fst (tables m))"
      "fst ` set (tables m) \<subseteq> fst ` set (meta m)"
      "\<forall>n cs. (n, cs) \<in> set (meta m) \<longrightarrow>
           (\<exists>tb. map_of (tables m) n = Some tb \<and> wf_table tb \<and> cs = join '','' (tcols tb))"
      "\<forall>t. current_spreadsheet m = Some t \<longrightarrow> t \<noteq> [] \<and> spreadsheet_exists m t"
      unfolding wf_iff by blast+
    have keys: "map fst (meta m1) = map fst (meta m)" unfolding r1 by (rule registry_update_keys)
    have tin: "t \<in> fst ` set (meta m)"
      using reg by (simp add: spreadsheet_exists_def map_of_eq_None_iff)
    have sub: "set cols \<subseteq> set (tcols tb)" unfolding cols_def by (rule set_remove1_subset)
    have wd1: "wf_table d1"
      using rb(4,5) wtb sub
      by (auto simp: wf_table_def d1_def list_all_iff length_project rebuilt_rows_ids_comp)
    have d1': "distinct (map fst (meta m1))" using old(1) by (simp add: keys)
    have d2: "distinct (map fst (tables m1))"
      using old(2) by (auto simp: t1 distinct_map_filter)
    have d3: "fst ` set (tables m1) \<subseteq> fst ` set (meta m1)"
    proof -
      have "fst ` set (meta m1) = fst ` set (meta m)" using keys by (metis set_map)
      with old(3) tin show ?thesis by (auto simp: t1)
    qed
    have d4: "\<forall>n cs. (n, cs) \<in> set (meta m1) \<longrightarrow>
           (\<exists>tb. map_of (tables m1) n = Some tb \<and> wf_table tb \<and> cs = join '','' (tcols tb))"
    proof (intro allI impI)
      fix n cs assume "(n, cs) \<in> set (meta m1)"
      then consider "n = t" "cs = j" | "n \<noteq> t" "(n, cs) \<in> set (meta m)"
        unfolding r1 using registry_update_mem by fastforce
      then show "\<exists>tb. map_of (tables m1) n = Some tb \<and> wf_table tb \<and> cs = join '','' (tcols tb)"
      proof cases
        case 1
        have "map_of (filter (\<lambda>p. fst p \<noteq> t) (tables m)) t = None"
          by (simp add: map_of_filter_fst)
        from map_of_append_right[OF this, of "[(t, d1)]"]
        have "map_of (tables m1) t = Some d1" by (simp add: t1)
        with 1 wd1 show ?thesis by (simp add: j_def d1_def)
      next
        case 2
        with old(4) obtain tb0 where
          tb0: "map_of (tables m) n = Some tb0" "wf_table tb0" "cs = join '','' (tcols tb0)"
          by blast
        have "map_of (filter (\<lambda>p. fst p \<noteq> t) (tables m)) n = Some tb0"
          using 2(1) tb0(1) by (simp add: map_of_filter_fst)
        from map_of_append_left[OF this, of "[(t, d1)]"] tb0
        show ?thesis by (simp add: t1)
      qed
    qed
    have d5: "\<forall>x. current_spreadsheet m1 = Some x \<longrightarrow> x \<noteq> [] \<and> spreadsheet_exists m1 x"
    proof (intro allI impI)
      fix x assume "current_spreadsheet m1 = Some x"
      with old(5) c1 have x: "x \<noteq> []" "map_of (meta m) x \<noteq> None"
        by (auto simp: spreadsheet_exists_def)
      then have "x \<in> fst ` set (meta m)" by (simp add: map_of_eq_None_iff)
      then have "x \<in> fst ` set (meta m1)" using keys by (metis set_map)
      then have "map_of (meta m1) x \<noteq> None" by (simp add: map_of_eq_None_iff)
      with x(1) show "x \<noteq> [] \<and> spreadsheet_exists m1 x" by (simp add: spreadsheet_exists_def)
    qed
    show ?thesis unfolding wf_iff using d1' d2 d3 d4 d5 by blast
  qed
qed

lemma exec_wf:
  assumes "wf m" "exec m c = Inr (m1, out)"
  shows "wf m1"
  using assms
  by (cases c)
     (auto dest: create_spreadsheet_wf add_row_wf add_column_wf edit_cell_wf delete_row_wf
        delete_column_wf switch_spreadsheet_wf delete_spreadsheet_wf)

lemma run_wf:
  assumes "wf m" "run m cs = Inr (m1, outs)"
  shows "wf m1"
  using assms
proof (induction cs arbitrary: m m1 outs)
  case Nil
  then show ?case by simp
next
  case (Cons c cs)
  from Cons.prems(2) obtain ma out mb os where
    e: "exec m c = Inr (ma, out)" and r: "run ma cs = Inr (mb, os)" and m1: "m1 = mb"
    by (auto split: sum.splits prod.splits)
  from exec_wf[OF Cons.prems(1) e] have "wf ma" .
  from Cons.IH[OF this r] m1 show ?case by simp
qed

lemma reachable_wf: "run init cs = Inr (m, outs) \<Longrightarrow> wf m"
  using run_wf[OF wf_init] by blast

section \<open>What a successful delete_column does\<close>

lemma project_self: "project cols cols (map g cols) = map g cols"
proof -
  have "map_of (zip cols (map g cols)) c = Some (g c)" if "c \<in> set cols" for c
    using that by (simp add: map_of_zip_map)
  then show ?thesis by (simp add: project_def)
qed

lemma project_twice:
  "project cols cols (project src cols cells) = project src cols cells"
  unfolding project_def[of src cols cells] by (rule project_self)

lemma map_of_rows_map:
  "map_of (map (\<lambda>(i, cells). (i, h cells)) rows) i = map_option h (map_of rows i)"
  by (induction rows) auto

lemma project_cell:
  assumes "k \<in> set cols" "k \<in> set src" "length cells = length src"
  shows "map_of (zip cols (project src cols cells)) k = map_of (zip src cells) k"
proof -
  from assms(2,3) have "k \<in> fst ` set (zip src cells)"
    by (metis map_fst_zip set_map)
  then obtain x where x: "map_of (zip src cells) k = Some x"
    by (cases "map_of (zip src cells) k") (auto simp: map_of_eq_None_iff)
  have "map_of (zip cols (project src cols cells)) k
          = Some (case map_of (zip src cells) k of None \<Rightarrow> None | Some y \<Rightarrow> y)"
    using assms(1) unfolding project_def by (simp add: map_of_zip_map)
  with x show ?thesis by simp
qed

text \<open>
  When delete_column succeeds on a well-formed store, the target's table has the former
  columns without the deleted one, the registry lists exactly these columns, the row ids
  are the same, and every cell under a remaining column is unchanged. With an absent
  column the call returns the not-found error and the store as it was.
\<close>

lemma delete_column_rebuild:
  assumes "wf m" and "target m sp = Some t" and "sanitize_name cn = Inr c"
    and "c \<in> set (get_columns m (Some t))"
    and "delete_column m cn sp = Inr (m1, out)"
  shows "\<exists>tb tb1. map_of (tables m) t = Some tb \<and> map_of (tables m1) t = Some tb1
           \<and> tcols tb1 = remove1 c (tcols tb)
           \<and> get_columns m1 (Some t) = tcols tb1
           \<and> map fst (trows tb1) = map fst (trows tb)
           \<and> (\<forall>i k. k \<in> set (tcols tb1) \<longrightarrow> lookup_cell tb1 i k = lookup_cell tb i k)
           \<and> out = Done (''Deleted column '' @ quoted cn)"
proof -
  have tne: "t \<noteq> []" using assms(2) by (rule target_nonempty)
  have reg: "spreadsheet_exists m t"
    using assms(4) get_columns_unregistered[OF tne] by fastforce
  from wf_table_exists[OF assms(1) reg] obtain tb where tb: "map_of (tables m) t = Some tb" ..
  have gc: "get_columns m (Some t) = tcols tb" and wtb: "wf_table tb"
    by (rule get_columns_wf[OF assms(1) tne tb reg])+
  define cols where "cols = remove1 c (tcols tb)"
  define h where "h = (\<lambda>cells. project (tcols tb) cols cells)"
  define tb1 :: table where
    "tb1 = \<lparr>tcols = cols, trows = map (\<lambda>(i, cells). (i, h cells)) (trows tb)\<rparr>"
  have chain: "\<exists>ma mb mc md.
      sql_create_table m (''_temp_'' @ t) (remove1 c (get_columns m (Some t))) = Inr ma
    \<and> sql_insert_select ma (''_temp_'' @ t) (remove1 c (get_columns m (Some t))) t = Inr mb
    \<and> sql_drop_table mb t = Inr mc
    \<and> sql_rename_table mc (''_temp_'' @ t) t = Inr md
    \<and> m1 = registry_update md t (join '','' (remove1 c (get_columns m (Some t))))
    \<and> out = Done (''Deleted column '' @ quoted cn)"
    using assms(2,3,4,5) by (auto simp: delete_column_def Let_def split: sum.splits)
  then obtain ma mb mc md where ch:
      "sql_create_table m (''_temp_'' @ t) cols = Inr ma"
      "sql_insert_select ma (''_temp_'' @ t) cols t = Inr mb"
      "sql_drop_table mb t = Inr mc"
      "sql_rename_table mc (''_temp_'' @ t) t = Inr md"
      "m1 = registry_update md t (join '','' cols)"
      "out = Done (''Deleted column '' @ quoted cn)"
    unfolding gc cols_def[symmetric] by blast
  note rb = rebuild_tables[OF tb ch(1,2,3,4)]
  have rows: "(\<lambda>(i, cells). (i, project cols cols (project (tcols tb) cols cells)))
                = (\<lambda>(i, cells). (i, h cells))"
    by (simp add: h_def project_twice)
  have t1: "tables m1 = filter (\<lambda>p. fst p \<noteq> t) (tables m) @ [(t, tb1)]"
    using rb(1) unfolding rows by (simp add: ch(5) registry_update_def tb1_def)
  have "map_of (filter (\<lambda>p. fst p \<noteq> t) (tables m)) t = None"
    by (simp add: map_of_filter_fst)
  from map_of_append_right[OF this, of "[(t, tb1)]"]
  have l1: "map_of (tables m1) t = Some tb1" by (simp add: t1)
  have w1: "wf m1" by (rule delete_column_wf[OF assms(1,5)])
  have r1: "meta m1 = map (\<lambda>(k, x). if k = t then (k, join '','' cols) else (k, x)) (meta m)"
    using rb(2) by (simp add: ch(5) registry_update_def)
  have "map fst (meta m1) = map fst (meta m)" unfolding r1 by (rule registry_update_keys)
  then have "fst ` set (meta m1) = fst ` set (meta m)" by (metis set_map)
  with reg have reg1: "spreadsheet_exists m1 t"
    by (simp add: spreadsheet_exists_def map_of_eq_None_iff)
  have gc1: "get_columns m1 (Some t) = tcols tb1"
    by (rule get_columns_wf(1)[OF w1 tne l1 reg1])
  have ids: "map fst (trows tb1) = map fst (trows tb)"
    by (simp add: tb1_def rebuilt_rows_ids_comp)
  have sub: "set cols \<subseteq> set (tcols tb)" unfolding cols_def by (rule set_remove1_subset)
  have cells: "lookup_cell tb1 i k = lookup_cell tb i k" if k: "k \<in> set (tcols tb1)" for i k
  proof (cases "map_of (trows tb) i")
    case None
    then show ?thesis by (simp add: lookup_cell_def tb1_def map_of_rows_map)
  next
    case (Some cells)
    then have "(i, cells) \<in> set (trows tb)" by (rule map_of_SomeD)
    with wtb have len: "length cells = length (tcols tb)"
      by (auto simp: wf_table_def list_all_iff)
    from k have kc: "k \<in> set cols" by (simp add: tb1_def)
    with sub have ks: "k \<in> set (tcols tb)" by blast
    show ?thesis
      using Some project_cell[OF kc ks len]
      by (simp add: lookup_cell_def tb1_def map_of_rows_map h_def)
  qed
  have "tcols tb1 = remove1 c (tcols tb)" by (simp add: tb1_def cols_def)
  with tb l1 gc1 ids cells ch(6) show ?thesis by blast
qed

lemma delete_column_absent:
  assumes "target m sp = Some t" and "sanitize_name cn = Inr c"
    and "c \<notin> set (get_columns m (Some t))"
  shows "delete_column m cn sp = Inr (m, Failure (''Column '' @ quoted cn @ '' not found''))"
  using assms by (simp add: delete_column_def)

section \<open>What add_column and add_row do\<close>

lemma add_column_duplicate:
  assumes "target m sp = Some t" and "sanitize_name cn = Inr c"
    and "c \<in> set (get_columns m (Some t))"
  shows "add_column m cn dflt sp = Inr (m, Failure (''Column '' @ quoted cn @ '' already exists''))"
  using assms by (simp add: add_column_def)

lemma add_column_new:
  assumes "target m sp = Some t" and "sanitize_name cn = Inr c"
    and "c \<notin> set (get_columns m (Some t))"
  shows "add_column m cn dflt sp = Inl (OperationalError SyntaxError)"
  using assms by (simp add: add_column_def sql_alter_add_column_default_param_def)

lemma map_of_dict_set:
  "map_of (dict_set k v xs) n = (if n = k then Some v else map_of xs n)"
  by (induction xs) auto

text \<open>
  Without a rebuild the ids of a table only grow: add_row returns an id above the
  table's sequence value and above every id in the table, and stores it as the new
  sequence value; delete_row leaves the sequence value alone.
\<close>

lemma add_row_fresh_id:
  assumes "target m sp = Some t" and "add_row m d sp = Inr (m1, RowAdded i msg)"
  shows "seq_of m t < i \<and> seq_of m1 t = i \<and> (\<forall>j \<in> set (row_ids m t). j < i)"
proof -
  from assms obtain sd where ins: "sql_insert m t sd = Inr (m1, i)"
    by (auto simp: add_row_def split: sum.splits if_splits)
  then obtain tb where tb: "map_of (tables m) t = Some tb"
    by (cases "map_of (tables m) t") (simp_all add: sql_insert_def)
  define hi where "hi = max (seq_of m t) (max_rowid (trows tb))"
  from ins tb have i: "i = hi + 1"
    and s: "sqlite_sequence m1 = dict_set t (hi + 1) (sqlite_sequence m)"
    unfolding sql_insert_def Let_def hi_def by (auto split: if_splits)
  have "j < i" if "j \<in> set (row_ids m t)" for j
  proof -
    from that tb have "j \<in> fst ` set (trows tb)" by (simp add: row_ids_def)
    then have "j \<le> max_rowid (trows tb)" by (rule max_rowid_ge)
    then show ?thesis by (simp add: i hi_def)
  qed
  moreover have "seq_of m t < i" by (simp add: i hi_def)
  moreover have "seq_of m1 t = i" by (simp add: seq_of_def s map_of_dict_set i)
  ultimately show ?thesis by blast
qed

lemma delete_row_keeps_sequence:
  assumes "delete_row m i sp = Inr (m1, out)"
  shows "sqlite_sequence m1 = sqlite_sequence m"
  using assms
  by (auto simp: delete_row_def sql_delete_def Let_def split: option.splits if_splits)

end
